theory Spec2Isabelle
  imports Main "HOL-Library.AList"
begin

section \<open>JavaScript string primitives used by the parser\<close>

text \<open>
  Strings are lists of 8-bit code units.  The server decodes every socket buffer with
  \<^verbatim>\<open>data.toString("ascii")\<close>, so each code unit it handles is below 128.
  \<^verbatim>\<open>String.prototype.trim\<close> strips white space and line terminators; among the
  code units below 256 these are TAB, LF, VT, FF, CR, SP and NBSP.
\<close>

definition isWhiteSpace :: "char \<Rightarrow> bool" where
  "isWhiteSpace c =
     (c = CHR 0x09 \<or> c = CHR 0x0A \<or> c = CHR 0x0B \<or> c = CHR 0x0C \<or> c = CHR 0x0D
      \<or> c = CHR 0x20 \<or> c = CHR 0xA0)"

definition trimStart :: "string \<Rightarrow> string" where
  "trimStart s = dropWhile isWhiteSpace s"

definition trimEnd :: "string \<Rightarrow> string" where
  "trimEnd s = rev (dropWhile isWhiteSpace (rev s))"

definition trim :: "string \<Rightarrow> string" where
  "trim s = trimEnd (trimStart s)"

definition startsWith :: "string \<Rightarrow> string \<Rightarrow> bool" where
  "startsWith s p = (take (length p) s = p)"

definition endsWith :: "string \<Rightarrow> string \<Rightarrow> bool" where
  "endsWith s p = (length p \<le> length s \<and> drop (length s - length p) s = p)"

text \<open>\<^verbatim>\<open>s.substring(n)\<close> for \<open>n\<close> a non-negative constant.\<close>

definition substring :: "string \<Rightarrow> nat \<Rightarrow> string" where
  "substring s n = drop n s"

text \<open>\<^verbatim>\<open>s.substring(0, n)\<close>.\<close>

definition substring0 :: "string \<Rightarrow> nat \<Rightarrow> string" where
  "substring0 s n = take n s"

text \<open>
  \<^verbatim>\<open>s.replace(pat, rep)\<close> with a string pattern replaces the first occurrence only.
\<close>

fun replace :: "string \<Rightarrow> string \<Rightarrow> string \<Rightarrow> string" where
  "replace [] pat rep = (if pat = [] then rep else [])"
| "replace (c # cs) pat rep =
     (if startsWith (c # cs) pat then rep @ drop (length pat) (c # cs)
      else c # replace cs pat rep)"

text \<open>
  \<^verbatim>\<open>s.split(sep)\<close> for a one-character separator: always at least one part, and
  one more part than there are separators.  The scan keeps the part read so far in \<open>cur\<close>.
\<close>

fun splitFrom :: "string \<Rightarrow> string \<Rightarrow> char \<Rightarrow> string list" where
  "splitFrom cur [] sep = [cur]"
| "splitFrom cur (c # cs) sep =
     (if c = sep then cur # splitFrom [] cs sep else splitFrom (cur @ [c]) cs sep)"

definition split_str :: "string \<Rightarrow> char \<Rightarrow> string list" where
  "split_str s sep = splitFrom [] s sep"

text \<open>\<^verbatim>\<open>s.includes(pat)\<close>.\<close>

fun includes_str :: "string \<Rightarrow> string \<Rightarrow> bool" where
  "includes_str [] pat = (pat = [])"
| "includes_str (c # cs) pat = (startsWith (c # cs) pat \<or> includes_str cs pat)"

text \<open>
  \<^verbatim>\<open>parts[i] || ""\<close>: an index out of range reads \<^verbatim>\<open>undefined\<close>, which is falsy
  like the empty string, so the expression yields the empty string there.
\<close>

definition partOrEmpty :: "string list \<Rightarrow> nat \<Rightarrow> string" where
  "partOrEmpty parts i = (if i < length parts then parts ! i else [])"

text \<open>Truthiness of an optional string: \<^verbatim>\<open>undefined\<close> and \<^verbatim>\<open>""\<close> are falsy.\<close>

definition truthy :: "string option \<Rightarrow> bool" where
  "truthy s = (case s of None \<Rightarrow> False | Some t \<Rightarrow> t \<noteq> [])"

text \<open>\<^verbatim>\<open>s || d\<close> for an optional string.\<close>

definition orElse :: "string option \<Rightarrow> string \<Rightarrow> string" where
  "orElse s d = (case s of None \<Rightarrow> d | Some t \<Rightarrow> (if t = [] then d else t))"


section \<open>Protocol types (types/protocol.ts)\<close>

datatype FrameType = ACK | RESP | BUFF | SACK

definition GTHBD :: string where
  "GTHBD = ''GTHBD''"

definition TAIL_CHAR :: char where
  "TAIL_CHAR = CHR ''$''"

record BaseMessage =
  frameType :: FrameType
  commandWord :: string
  fullProtocolVersion :: string
  uniqueId :: string
  deviceName :: string
  sendTime :: string
  countNumber :: string
  rawMessage :: string

text \<open>
  The \<^verbatim>\<open>error\<close> texts of \<^verbatim>\<open>ParseResult\<close>, one constructor per message of the parser:
  "Mensagem nao termina com $", "Tipo de frame nao reconhecido", "Mensagem ACK invalida",
  "Mensagem RESP invalida" and "Tipo de frame nao suportado: <frameType>".
  The parser's \<^verbatim>\<open>catch\<close> branch is not reachable: no string operation it uses throws.
\<close>

datatype DecodeError =
    MissingTerminator
  | UnknownFrameType
  | MalformedAck
  | MalformedResp
  | UnsupportedFrameType FrameType

record ParseResult =
  success :: bool
  message :: "BaseMessage option"
  error :: "DecodeError option"
  needsAck :: "bool option"
  ackMessage :: "string option"

definition failure :: "DecodeError \<Rightarrow> ParseResult" where
  "failure e =
     \<lparr>success = False, message = None, error = Some e, needsAck = None, ackMessage = None\<rparr>"


section \<open>ProtocolParser (utils/protocolParser.ts)\<close>

definition identifyFrameType :: "string \<Rightarrow> FrameType option" where
  "identifyFrameType msg =
     (if startsWith msg ''+ACK:'' then Some ACK
      else if startsWith msg ''+RESP:'' then Some RESP
      else if startsWith msg ''+BUFF:'' then Some BUFF
      else if startsWith msg ''+SACK:'' then Some SACK
      else None)"

definition generateSackMessage ::
  "string option \<Rightarrow> string option \<Rightarrow> string option \<Rightarrow> string" where
  "generateSackMessage cmd protocolVersion cnt =
     (if truthy cmd \<and> truthy protocolVersion then
        (let version = substring0 (orElse protocolVersion []) 6
         in ''+SACK:'' @ orElse cmd [] @ '','' @ version @ '','' @ orElse cnt ''0000'' @ ''$'')
      else ''+SACK:'' @ orElse cnt ''0000'' @ ''$'')"

definition parseAckMessage :: "string \<Rightarrow> ParseResult" where
  "parseAckMessage msg =
     (let parts = split_str (replace (substring msg 5) ''$'' '''') (CHR '','')
      in if length parts < 6 then failure MalformedAck
         else
           (let parsedMessage =
                  \<lparr>frameType = ACK,
                   commandWord = partOrEmpty parts 0,
                   fullProtocolVersion = partOrEmpty parts 1,
                   uniqueId = partOrEmpty parts 2,
                   deviceName = partOrEmpty parts 3,
                   sendTime = partOrEmpty parts 4,
                   countNumber = partOrEmpty parts 5,
                   rawMessage = msg\<rparr>
            in if commandWord parsedMessage = GTHBD then
                 \<lparr>success = True, message = Some parsedMessage, error = None,
                  needsAck = Some True,
                  ackMessage = Some (generateSackMessage
                     (Some (commandWord parsedMessage))
                     (Some (fullProtocolVersion parsedMessage))
                     (Some (countNumber parsedMessage)))\<rparr>
               else
                 \<lparr>success = True, message = Some parsedMessage, error = None,
                  needsAck = Some False, ackMessage = Some []\<rparr>))"

definition parseRespMessage :: "string \<Rightarrow> ParseResult" where
  "parseRespMessage msg =
     (let parts = split_str (replace (substring msg 6) ''$'' '''') (CHR '','')
      in if length parts < 6 then failure MalformedResp
         else
           (let parsedMessage =
                  \<lparr>frameType = RESP,
                   commandWord = partOrEmpty parts 0,
                   fullProtocolVersion = partOrEmpty parts 1,
                   uniqueId = partOrEmpty parts 2,
                   deviceName = partOrEmpty parts 3,
                   sendTime = partOrEmpty parts (length parts - 2),
                   countNumber = partOrEmpty parts (length parts - 1),
                   rawMessage = msg\<rparr>
            in \<lparr>success = True, message = Some parsedMessage, error = None,
                needsAck = Some True,
                ackMessage = Some (generateSackMessage None None
                   (Some (countNumber parsedMessage)))\<rparr>))"

definition parseBuffMessage :: "string \<Rightarrow> ParseResult" where
  "parseBuffMessage msg =
     (let respMessage = replace msg ''+BUFF:'' ''+RESP:'';
          result = parseRespMessage respMessage
      in case message result of
           Some m \<Rightarrow>
             (if success result
              then result\<lparr>message := Some (m\<lparr>frameType := BUFF, rawMessage := msg\<rparr>)\<rparr>
              else result)
         | None \<Rightarrow> result)"

definition parseMessage :: "string \<Rightarrow> ParseResult" where
  "parseMessage raw =
     (let cleanMessage = trim raw
      in if \<not> endsWith cleanMessage [TAIL_CHAR] then failure MissingTerminator
         else
           (case identifyFrameType cleanMessage of
              None \<Rightarrow> failure UnknownFrameType
            | Some ACK \<Rightarrow> parseAckMessage cleanMessage
            | Some RESP \<Rightarrow> parseRespMessage cleanMessage
            | Some BUFF \<Rightarrow> parseBuffMessage cleanMessage
            | Some SACK \<Rightarrow> failure (UnsupportedFrameType SACK)))"

definition isMessageComplete :: "string \<Rightarrow> bool" where
  "isMessageComplete data = (TAIL_CHAR \<in> set data)"

text \<open>The \<^verbatim>\<open>for\<close> loop of \<^verbatim>\<open>extractMessages\<close>, pushing onto \<open>messages\<close>.\<close>

fun pushParts :: "string list \<Rightarrow> string list \<Rightarrow> string list" where
  "pushParts messages [] = messages"
| "pushParts messages (part # parts) =
     pushParts (if trim part \<noteq> [] then messages @ [trim part @ [TAIL_CHAR]] else messages)
       parts"

definition extractMessages :: "string \<Rightarrow> string list" where
  "extractMessages buffer =
     (let parts = split_str buffer TAIL_CHAR;
          parts' = (if last parts = [] then butlast parts else parts)
      in pushParts [] parts')"


section \<open>Server (server.ts)\<close>

text \<open>
  A socket is identified by its \<^verbatim>\<open>clientId\<close>, the text \<^verbatim>\<open>remoteAddress:remotePort\<close>.
  Of the socket object a session only reads \<^verbatim>\<open>socket.writable\<close>.  Dates are clock
  readings passed in as \<open>now\<close>.  The timers and the \<^verbatim>\<open>close\<close> and \<^verbatim>\<open>error\<close> events of a
  socket are not part of the model.
\<close>

record ConnectedClient =
  socketWritable :: bool
  imei :: "string option"
  deviceName :: "string option"
  lastHeartbeat :: nat
  connected :: nat
  messageCount :: nat
  isAlive :: bool

record ServerConfig =
  port :: int
  host :: string
  enableSack :: bool
  sackMode :: int
  heartbeatInterval :: int
  connectionLife :: int
  enableLogging :: bool
  maxConnections :: int

text \<open>
  What the server does to the outside world: socket calls, calls of the logger at level
  info and above, and calls of the data manager.  Console output and debug logging are
  left out.  The data manager catches its own errors and only reads the session, so each
  awaited call is one entry of the trace.

  \<^verbatim>\<open>processMessage\<close> is an \<^verbatim>\<open>async\<close> function that the loop of \<^verbatim>\<open>handleClientData\<close>
  calls without \<^verbatim>\<open>await\<close>.  A call runs up to its first \<^verbatim>\<open>await\<close> of the data manager
  and returns; the loop goes on with the next message.  What the call does after an
  \<^verbatim>\<open>await\<close> runs later, when the data manager's promise is settled, in an order the
  server does not decide.  So a call leaves a \<open>Pending\<close> continuation in the server
  state, and \<open>resumeTask\<close> runs one continuation up to its next \<^verbatim>\<open>await\<close> or its end.
  No event of the model removes or replaces a session, so the session object a
  continuation holds is the one registered under its \<^verbatim>\<open>clientId\<close>.  The message count
  logged with a processed message is left out of the trace.
\<close>

datatype Effect =
    LogConnectionLimit string
  | SocketEnd string
  | SocketWrite string string
  | HealthCheckResponse string nat nat
  | LogConnection string
  | LogIncomplete string string
  | LogProtocolError string "DecodeError option" string
  | LogMessageReceived string BaseMessage
  | LogDeviceIdentification string string string
  | DataClientConnection string string
  | DataMessage string BaseMessage
  | LogHeartbeat string string
  | LogMessageProcessed string FrameType string
  | LogSackSent string string
  | LogDeviceCommand string string

text \<open>
  \<open>clients\<close> is the \<^verbatim>\<open>Map\<close> of sessions in insertion order, updated with
  \<^const>\<open>AList.update\<close> so that keys stay distinct and its length is \<^verbatim>\<open>clients.size\<close>.
  \<open>initialListeners\<close> are the sockets on which \<^verbatim>\<open>socket.once("data", initialDataHandler)\<close>
  is pending, \<open>dataListeners\<close> those with \<^verbatim>\<open>socket.on("data", ...)\<close> of \<^verbatim>\<open>setupTcpClient\<close>.
\<close>

text \<open>
  A call of \<^verbatim>\<open>processMessage\<close> suspended at \<^verbatim>\<open>await dataManager.handleClientConnection(...)\<close>
  or at \<^verbatim>\<open>await dataManager.handleMessage(...)\<close>, with its \<^verbatim>\<open>clientId\<close>,
  \<^verbatim>\<open>parseResult\<close> and \<^verbatim>\<open>parsedMessage\<close>.
\<close>

datatype Pending =
    AwaitClientConnection string ParseResult BaseMessage
  | AwaitMessage string ParseResult BaseMessage

record Server =
  clients :: "(string \<times> ConnectedClient) list"
  config :: ServerConfig
  initialListeners :: "string list"
  dataListeners :: "string list"
  pending :: "Pending list"

definition isHttpHealthCheck :: "string \<Rightarrow> bool" where
  "isHttpHealthCheck data =
     (includes_str data ''HTTP/'' \<or> includes_str data ''GET '' \<or> includes_str data ''HEAD ''
      \<or> includes_str data ''POST '' \<or> includes_str data ''User-Agent:'')"

text \<open>\<^verbatim>\<open>getStats\<close>: the two figures the health check reports.\<close>

definition totalConnections :: "Server \<Rightarrow> nat" where
  "totalConnections st = length (clients st)"

definition identifiedDevices :: "Server \<Rightarrow> nat" where
  "identifiedDevices st = length (filter (\<lambda>kv. truthy (imei (snd kv))) (clients st))"

definition sendAckMessage :: "Server \<Rightarrow> string \<Rightarrow> string \<Rightarrow> Effect list" where
  "sendAckMessage st clientId ack =
     (case map_of (clients st) clientId of
        None \<Rightarrow> []
      | Some client \<Rightarrow>
          (if \<not> socketWritable client then []
           else [SocketWrite clientId ack, LogSackSent clientId ack]))"

text \<open>
  \<^verbatim>\<open>handleSpecificCommand\<close> only logs: nothing for the heartbeat, one line naming the
  alert or report for the six mapped commands, a debug line otherwise.
\<close>

definition handleSpecificCommand :: "string \<Rightarrow> BaseMessage \<Rightarrow> Effect list" where
  "handleSpecificCommand clientId m =
     (if commandWord m = ''GTHBD'' then []
      else if commandWord m = ''GTFRI'' then [LogDeviceCommand clientId ''Location report received'']
      else if commandWord m = ''GTPFA'' then [LogDeviceCommand clientId ''Power failure alert'']
      else if commandWord m = ''GTBPL'' then [LogDeviceCommand clientId ''Battery low alert'']
      else if commandWord m = ''GTTEM'' then [LogDeviceCommand clientId ''Temperature report'']
      else if commandWord m = ''GTJDS'' then [LogDeviceCommand clientId ''Jamming detection alert'']
      else if commandWord m = ''GTGEO'' then [LogDeviceCommand clientId ''Geofence alert'']
      else [])"

text \<open>
  \<^verbatim>\<open>processMessage\<close> up to its first \<^verbatim>\<open>await\<close>: the identifying call of the data
  manager when the frame identifies the device, else the call that stores the message.
  A successful result always carries a message; were it missing,
  \<^verbatim>\<open>parseResult.message!\<close> would be \<^verbatim>\<open>undefined\<close> and the call would fail right after
  counting the message.  This part reads no clock.
\<close>

definition processMessage :: "Server \<Rightarrow> string \<Rightarrow> string \<Rightarrow> nat \<Rightarrow> Server \<times> Effect list" where
  "processMessage st clientId msg now =
     (case map_of (clients st) clientId of
        None \<Rightarrow> (st, [])
      | Some client \<Rightarrow>
          (let parseResult = parseMessage msg
           in if \<not> success parseResult then
                (st, [LogProtocolError clientId (error parseResult) msg])
              else
                (let client1 = client\<lparr>messageCount := messageCount client + 1\<rparr>
                 in case message parseResult of
                      None \<Rightarrow> (st\<lparr>clients := AList.update clientId client1 (clients st)\<rparr>, [])
                    | Some parsedMessage \<Rightarrow>
                        (if uniqueId parsedMessage \<noteq> [] \<and> \<not> truthy (imei client1) then
                           (st\<lparr>clients :=
                                 AList.update clientId
                                   (client1\<lparr>imei := Some (uniqueId parsedMessage),
                                            deviceName :=
                                              Some (BaseMessage.deviceName parsedMessage)\<rparr>)
                                   (clients st),
                               pending :=
                                 pending st
                                 @ [AwaitClientConnection clientId parseResult parsedMessage]\<rparr>,
                            [LogMessageReceived clientId parsedMessage,
                             LogDeviceIdentification clientId (uniqueId parsedMessage)
                               (BaseMessage.deviceName parsedMessage),
                             DataClientConnection clientId (uniqueId parsedMessage)])
                         else
                           (st\<lparr>clients := AList.update clientId client1 (clients st),
                               pending :=
                                 pending st @ [AwaitMessage clientId parseResult parsedMessage]\<rparr>,
                            [LogMessageReceived clientId parsedMessage,
                             DataMessage clientId parsedMessage])))))"

text \<open>
  The continuation number \<open>i\<close> goes on at clock reading \<open>now\<close>.  After the identifying
  call it calls \<^verbatim>\<open>dataManager.handleMessage\<close> and waits again.  After that call it
  records the heartbeat, logs the processed message, sends the ack when acks are enabled
  and the result asks for one, and handles the specific command.
\<close>

definition resumeTask :: "Server \<Rightarrow> nat \<Rightarrow> nat \<Rightarrow> Server \<times> Effect list" where
  "resumeTask st i now =
     (if length (pending st) \<le> i then (st, [])
      else
        (case pending st ! i of
           AwaitClientConnection clientId parseResult parsedMessage \<Rightarrow>
             (st\<lparr>pending := (pending st)[i := AwaitMessage clientId parseResult parsedMessage]\<rparr>,
              [DataMessage clientId parsedMessage])
         | AwaitMessage clientId parseResult parsedMessage \<Rightarrow>
             (let heartbeat = (frameType parsedMessage = ACK
                               \<and> commandWord parsedMessage = ''GTHBD'');
                  st' = st\<lparr>clients :=
                             (if heartbeat then
                                AList.map_entry clientId (\<lambda>c. c\<lparr>lastHeartbeat := now\<rparr>)
                                  (clients st)
                              else clients st),
                           pending := take i (pending st) @ drop (Suc i) (pending st)\<rparr>
              in (st',
                  (if heartbeat then [LogHeartbeat clientId (uniqueId parsedMessage)] else [])
                  @ [LogMessageProcessed clientId (frameType parsedMessage)
                       (commandWord parsedMessage)]
                  @ (if enableSack (config st) \<and> needsAck parseResult = Some True
                        \<and> truthy (ackMessage parseResult)
                     then sendAckMessage st' clientId (orElse (ackMessage parseResult) [])
                     else [])
                  @ handleSpecificCommand clientId parsedMessage))))"

text \<open>The continuations picked by a schedule, one after the other.\<close>

fun runTasks :: "Server \<Rightarrow> nat list \<Rightarrow> nat \<Rightarrow> Server \<times> Effect list" where
  "runTasks st [] now = (st, [])"
| "runTasks st (i # sched) now =
     (case resumeTask st i now of
        (st1, e1) \<Rightarrow>
          (case runTasks st1 sched now of
             (st2, e2) \<Rightarrow> (st2, e1 @ e2)))"

text \<open>
  The \<^verbatim>\<open>for\<close> loop of \<^verbatim>\<open>handleClientData\<close> over the extracted messages: each call
  runs up to its first \<^verbatim>\<open>await\<close>.
\<close>

fun processMessages ::
  "Server \<Rightarrow> string \<Rightarrow> string list \<Rightarrow> nat \<Rightarrow> Server \<times> Effect list" where
  "processMessages st clientId [] now = (st, [])"
| "processMessages st clientId (m # ms) now =
     (case processMessage st clientId m now of
        (st1, e1) \<Rightarrow>
          (case processMessages st1 clientId ms now of
             (st2, e2) \<Rightarrow> (st2, e1 @ e2)))"

definition handleClientData :: "Server \<Rightarrow> string \<Rightarrow> string \<Rightarrow> nat \<Rightarrow> Server \<times> Effect list" where
  "handleClientData st clientId data now =
     (case map_of (clients st) clientId of
        None \<Rightarrow> (st, [])
      | Some client \<Rightarrow>
          (let msg = trim data
           in if \<not> isMessageComplete msg then (st, [LogIncomplete clientId msg])
              else processMessages st clientId (extractMessages msg) now))"

definition setupTcpClient :: "Server \<Rightarrow> string \<Rightarrow> nat \<Rightarrow> Server \<times> Effect list" where
  "setupTcpClient st clientId now =
     (st\<lparr>clients :=
           AList.update clientId
             \<lparr>socketWritable = True, imei = None, deviceName = None, lastHeartbeat = now,
              connected = now, messageCount = 0, isAlive = True\<rparr>
             (clients st),
         dataListeners := clientId # dataListeners st\<rparr>,
      [LogConnection clientId])"

definition initialDataHandler ::
  "Server \<Rightarrow> string \<Rightarrow> string \<Rightarrow> nat \<Rightarrow> Server \<times> Effect list" where
  "initialDataHandler st clientId data now =
     (if isHttpHealthCheck data then
        (st, [HealthCheckResponse clientId (totalConnections st) (identifiedDevices st),
              SocketEnd clientId])
      else
        (case setupTcpClient st clientId now of
           (st1, e1) \<Rightarrow>
             (case handleClientData st1 clientId data now of
                (st2, e2) \<Rightarrow> (st2, e1 @ e2))))"

text \<open>
  \<^verbatim>\<open>handleConnection\<close>: at the connection limit the socket is ended and the function
  returns before any listener is attached to it.
\<close>

definition handleConnection :: "Server \<Rightarrow> string \<Rightarrow> Server \<times> Effect list" where
  "handleConnection st clientId =
     (if maxConnections (config st) \<le> int (length (clients st)) then
        (st, [LogConnectionLimit clientId, SocketEnd clientId])
      else (st\<lparr>initialListeners := clientId # initialListeners st\<rparr>, []))"

text \<open>
  A \<^verbatim>\<open>data\<close> event of a socket runs the listeners attached to it: the pending
  \<^verbatim>\<open>once\<close> listener (removed as it fires), else the session's listener, else nothing.
\<close>

definition socketData :: "Server \<Rightarrow> string \<Rightarrow> string \<Rightarrow> nat \<Rightarrow> Server \<times> Effect list" where
  "socketData st clientId data now =
     (if clientId \<in> set (initialListeners st) then
        initialDataHandler
          (st\<lparr>initialListeners := removeAll clientId (initialListeners st)\<rparr>) clientId data now
      else if clientId \<in> set (dataListeners st) then handleClientData st clientId data now
      else (st, []))"


section \<open>Example sessions\<close>

text \<open>
  A server with acknowledgments enabled, a connection limit of one, and one session
  \<open>c\<close>: not yet identified in \<open>demoServer\<close>, identified as device \<open>1234\<close> in
  \<open>identifiedServer\<close>.
\<close>

definition demoConfig :: ServerConfig where
  "demoConfig =
     \<lparr>port = 8080, host = ''0.0.0.0'', enableSack = True, sackMode = 1,
      heartbeatInterval = 60, connectionLife = 30, enableLogging = False,
      maxConnections = 1\<rparr>"

definition demoClient :: ConnectedClient where
  "demoClient =
     \<lparr>socketWritable = True, imei = None, deviceName = None, lastHeartbeat = 0,
      connected = 0, messageCount = 0, isAlive = True\<rparr>"

definition demoServer :: Server where
  "demoServer =
     \<lparr>clients = [(''c'', demoClient)], config = demoConfig, initialListeners = [],
      dataListeners = [''c''], pending = []\<rparr>"

definition identifiedClient :: ConnectedClient where
  "identifiedClient = demoClient\<lparr>imei := Some ''1234'', deviceName := Some ''N''\<rparr>"

definition identifiedServer :: Server where
  "identifiedServer = demoServer\<lparr>clients := [(''c'', identifiedClient)]\<rparr>"

section \<open>The Buff override, in the words of the specification\<close>

text \<open>
  Decode as Resp, then set the kind back to Buff and the raw text back to the original
  text; a failed result is passed on as it is.
\<close>

definition asBuff :: "string \<Rightarrow> ParseResult \<Rightarrow> ParseResult" where
  "asBuff original r =
     (case message r of
        Some f \<Rightarrow> r\<lparr>message := Some (f\<lparr>frameType := BUFF, rawMessage := original\<rparr>)\<rparr>
      | None \<Rightarrow> r)"


section \<open>Facts about the string primitives\<close>

lemma splitFrom_at_sep:
  "sep \<notin> set a \<Longrightarrow> splitFrom cur (a @ sep # b) sep = (cur @ a) # splitFrom [] b sep"
  by (induction a arbitrary: cur) auto

lemma splitFrom_parts_no_sep:
  "sep \<notin> set cur \<Longrightarrow> \<forall>p \<in> set (splitFrom cur s sep). sep \<notin> set p"
proof (induction s arbitrary: cur)
  case Nil
  then show ?case by simp
next
  case (Cons c s)
  show ?case
  proof (cases "c = sep")
    case True
    then show ?thesis using Cons.prems Cons.IH[of "[]"] by simp
  next
    case False
    then show ?thesis using Cons.prems Cons.IH[of "cur @ [c]"] by simp
  qed
qed

lemma length_splitFrom: "length (splitFrom cur s sep) = Suc (count_list s sep)"
  by (induction s arbitrary: cur) auto

lemma trimStart_id: "s = [] \<or> \<not> isWhiteSpace (hd s) \<Longrightarrow> trimStart s = s"
  by (cases s) (auto simp: trimStart_def)

lemma trimEnd_id: "s = [] \<or> \<not> isWhiteSpace (last s) \<Longrightarrow> trimEnd s = s"
  by (cases "rev s") (auto simp: trimEnd_def last_rev hd_rev)

lemma trimStart_hd: "trimStart s \<noteq> [] \<Longrightarrow> \<not> isWhiteSpace (hd (trimStart s))"
  unfolding trimStart_def by (rule hd_dropWhile)

lemma trimEnd_last: "trimEnd s \<noteq> [] \<Longrightarrow> \<not> isWhiteSpace (last (trimEnd s))"
  unfolding trimEnd_def using hd_dropWhile[of isWhiteSpace "rev s"]
  by (simp add: last_rev)

lemma trimEnd_hd: "trimEnd s \<noteq> [] \<Longrightarrow> hd (trimEnd s) = hd s"
proof -
  assume a: "trimEnd s \<noteq> []"
  have "rev s = takeWhile isWhiteSpace (rev s) @ dropWhile isWhiteSpace (rev s)" by simp
  then have "s = rev (dropWhile isWhiteSpace (rev s)) @ rev (takeWhile isWhiteSpace (rev s))"
    by (metis rev_append rev_rev_ident)
  then have "s = trimEnd s @ rev (takeWhile isWhiteSpace (rev s))" by (simp add: trimEnd_def)
  with a show ?thesis by (metis hd_append2)
qed

lemma trimEnd_Nil: "trimEnd [] = []"
  by (simp add: trimEnd_def)

lemma trim_Nil: "trim [] = []"
  by (simp add: trim_def trimStart_def trimEnd_def)

lemma trim_hd: "trim s \<noteq> [] \<Longrightarrow> \<not> isWhiteSpace (hd (trim s))"
proof -
  assume a: "trim s \<noteq> []"
  then have ne: "trimStart s \<noteq> []" using trimEnd_Nil by (auto simp: trim_def)
  have "hd (trim s) = hd (trimStart s)" using a trimEnd_hd by (simp add: trim_def)
  with trimStart_hd[OF ne] show ?thesis by simp
qed

lemma trim_last: "trim s \<noteq> [] \<Longrightarrow> \<not> isWhiteSpace (last (trim s))"
  unfolding trim_def by (rule trimEnd_last)

lemma trim_id: "s \<noteq> [] \<Longrightarrow> \<not> isWhiteSpace (hd s) \<Longrightarrow> \<not> isWhiteSpace (last s) \<Longrightarrow> trim s = s"
  by (simp add: trim_def trimStart_id trimEnd_id)

lemma trim_idem: "trim (trim s) = trim s"
proof (cases "trim s = []")
  case True
  then show ?thesis using trim_Nil by simp
next
  case False
  then show ?thesis using trim_id trim_hd trim_last by blast
qed

lemma set_trim: "set (trim s) \<subseteq> set s"
proof -
  have "set (trimEnd t) \<subseteq> set t" for t
    unfolding trimEnd_def using set_dropWhileD[of _ isWhiteSpace "rev t"] by auto
  moreover have "set (trimStart s) \<subseteq> set s"
    unfolding trimStart_def using set_dropWhileD[of _ isWhiteSpace s] by auto
  ultimately show ?thesis unfolding trim_def by blast
qed

lemma pushParts_eq:
  "pushParts acc ps = acc @ map (\<lambda>p. trim p @ [TAIL_CHAR]) (filter (\<lambda>p. trim p \<noteq> []) ps)"
  by (induction ps arbitrary: acc) auto

lemma tail_not_ws: "\<not> isWhiteSpace TAIL_CHAR"
  by (simp add: isWhiteSpace_def TAIL_CHAR_def)

lemma extractMessages_eq:
  "extractMessages b =
     map (\<lambda>p. trim p @ [TAIL_CHAR])
       (filter (\<lambda>p. trim p \<noteq> [])
          (if last (split_str b TAIL_CHAR) = [] then butlast (split_str b TAIL_CHAR)
           else split_str b TAIL_CHAR))"
  by (simp add: extractMessages_def Let_def pushParts_eq)

lemma extractMessages_elem:
  assumes "m \<in> set (extractMessages b)"
  shows "\<exists>p. m = trim p @ [TAIL_CHAR] \<and> trim p \<noteq> [] \<and> TAIL_CHAR \<notin> set (trim p)"
proof -
  from assms obtain p where p: "m = trim p @ [TAIL_CHAR]" "trim p \<noteq> []"
    and mem: "p \<in> set (split_str b TAIL_CHAR)"
    by (auto simp: extractMessages_eq split: if_splits dest: in_set_butlastD)
  from mem have "TAIL_CHAR \<notin> set p"
    using splitFrom_parts_no_sep[of TAIL_CHAR "[]" b] by (simp add: split_str_def)
  then have "TAIL_CHAR \<notin> set (trim p)" using set_trim by blast
  with p show ?thesis by blast
qed

lemma extractMessages_single_terminator:
  assumes "m \<in> set (extractMessages b)"
  shows "endsWith m [TAIL_CHAR] \<and> TAIL_CHAR \<notin> set (butlast m)"
proof -
  from extractMessages_elem[OF assms] obtain p where
    "m = trim p @ [TAIL_CHAR]" and "TAIL_CHAR \<notin> set (trim p)" by blast
  then show ?thesis by (simp add: endsWith_def)
qed

lemma split_str_frames:
  "\<forall>f \<in> set bodies. sep \<notin> set f \<Longrightarrow>
   split_str (concat (map (\<lambda>f. f @ [sep]) bodies)) sep = bodies @ [[]]"
proof (induction bodies)
  case Nil
  then show ?case by (simp add: split_str_def)
next
  case (Cons f fs)
  then have "sep \<notin> set f" by simp
  then have "splitFrom [] (f @ sep # concat (map (\<lambda>f. f @ [sep]) fs)) sep
             = f # splitFrom [] (concat (map (\<lambda>f. f @ [sep]) fs)) sep"
    using splitFrom_at_sep[of sep f "[]"] by simp
  with Cons show ?case by (simp add: split_str_def)
qed

lemma count_frames:
  "\<forall>f \<in> set bodies. sep \<notin> set f \<Longrightarrow>
   count_list (concat (map (\<lambda>f. f @ [sep]) bodies)) sep = length bodies"
  by (induction bodies) (auto simp: count_list_0_iff)


lemma replace_first_char:
  "c \<notin> set a \<Longrightarrow> replace (a @ c # b) [c] [] = a @ b"
  by (induction a) (auto simp: startsWith_def)

lemma count_list_replace_char:
  "d \<noteq> sep \<Longrightarrow> count_list (replace s [d] []) sep = count_list s sep"
  by (induction s) (auto simp: startsWith_def)

lemma replace_prefix:
  "startsWith s pat \<Longrightarrow> pat \<noteq> [] \<Longrightarrow> replace s pat rep = rep @ drop (length pat) s"
  by (cases s) (auto simp: startsWith_def)

lemma endsWith_tail: "endsWith s [c] \<longleftrightarrow> s \<noteq> [] \<and> last s = c"
proof (cases s rule: rev_cases)
  case Nil
  then show ?thesis by (simp add: endsWith_def)
next
  case (snoc ys y)
  then show ?thesis by (auto simp: endsWith_def)
qed

lemma length_split_str: "length (split_str s sep) = Suc (count_list s sep)"
  by (simp add: split_str_def length_splitFrom)

text \<open>The number of comma-separated parts the decoders see, for a body ending in the terminator.\<close>

lemma length_parts:
  assumes "endsWith body [TAIL_CHAR]"
  shows "length (split_str (replace body ''$'' '''') (CHR '','')) 
         = length (split_str (butlast body) (CHR '',''))"
proof -
  from assms have b: "body = butlast body @ [TAIL_CHAR]"
    by (metis endsWith_tail append_butlast_last_id)
  have "count_list body (CHR '','') = count_list (butlast body @ [TAIL_CHAR]) (CHR '','')"
    using b by simp
  also have "\<dots> = count_list (butlast body) (CHR '','')"
    by (simp add: TAIL_CHAR_def)
  finally show ?thesis
    using count_list_replace_char[of "CHR ''$''" "CHR '',''" body]
    by (simp add: length_split_str)
qed

lemma parts_single_tail:
  assumes "endsWith body [TAIL_CHAR]" "TAIL_CHAR \<notin> set (butlast body)"
  shows "replace body ''$'' '''' = butlast body"
proof -
  from assms have b: "body = butlast body @ [TAIL_CHAR]"
    by (metis endsWith_tail append_butlast_last_id)
  have "replace (butlast body @ CHR ''$'' # []) [CHR ''$''] [] = butlast body @ []"
    using assms(2) by (intro replace_first_char) (simp add: TAIL_CHAR_def)
  then show ?thesis using b by (simp add: TAIL_CHAR_def)
qed

lemma startsWithD: "startsWith t p \<Longrightarrow> t = p @ drop (length p) t"
  unfolding startsWith_def by (metis append_take_drop_id)

lemma trim_frame:
  assumes "startsWith t (CHR ''+'' # p)" "endsWith t [TAIL_CHAR]"
  shows "trim t = t"
proof -
  from startsWithD[OF assms(1)] obtain r where "t = (CHR ''+'' # p) @ r" ..
  then have h: "hd t = CHR ''+''" and ne: "t \<noteq> []"
    by simp_all
  from assms(2) have l: "last t = TAIL_CHAR" by (simp add: endsWith_tail)
  show ?thesis using ne h l tail_not_ws by (intro trim_id) (simp_all add: isWhiteSpace_def)
qed

lemma parseMessage_resp:
  assumes "startsWith t ''+RESP:''" "endsWith t [TAIL_CHAR]"
  shows "parseMessage t = parseRespMessage t"
proof -
  have tr: "trim t = t" using assms by (rule trim_frame)
  from startsWithD[OF assms(1)] obtain r where r: "t = ''+RESP:'' @ r" ..
  have "identifyFrameType t = Some RESP"
    by (simp add: r identifyFrameType_def startsWith_def)
  then show ?thesis using assms(2) by (simp add: parseMessage_def tr)
qed

lemma partOrEmpty_six:
  assumes "6 \<le> length parts"
  shows "partOrEmpty parts 0 = parts ! 0" "partOrEmpty parts 1 = parts ! 1"
    "partOrEmpty parts 2 = parts ! 2" "partOrEmpty parts 3 = parts ! 3"
    "partOrEmpty parts 4 = parts ! 4" "partOrEmpty parts 5 = parts ! 5"
    "partOrEmpty parts (length parts - 2) = parts ! (length parts - 2)"
    "partOrEmpty parts (length parts - 1) = parts ! (length parts - 1)"
    "partOrEmpty parts (length parts - Suc 0) = parts ! (length parts - Suc 0)"
    "partOrEmpty parts (Suc 0) = parts ! Suc 0"
  using assms by (auto simp: partOrEmpty_def)


lemmas eval_defs = parseMessage_def parseAckMessage_def parseRespMessage_def parseBuffMessage_def
  identifyFrameType_def generateSackMessage_def failure_def
  startsWith_def endsWith_def substring_def substring0_def split_str_def partOrEmpty_def
  truthy_def orElse_def trim_def trimStart_def trimEnd_def isWhiteSpace_def
  TAIL_CHAR_def GTHBD_def Let_def



section \<open>Frame extraction\<close>

text \<open>
  Claim C10.  Every text returned by \<^const>\<open>extractMessages\<close> ends with the terminator,
  holds the terminator nowhere else, is not empty before the terminator, and neither
  starts nor ends with white space (so trimming leaves it as it is); hence it is neither
  the empty string nor a bare terminator.
\<close>

theorem C10_extracted_frame_shape:
  assumes "m \<in> set (extractMessages b)"
  shows "endsWith m [TAIL_CHAR] \<and> TAIL_CHAR \<notin> set (butlast m) \<and> butlast m \<noteq> []
         \<and> \<not> isWhiteSpace (hd m) \<and> \<not> isWhiteSpace (last m) \<and> trim m = m
         \<and> m \<noteq> [] \<and> m \<noteq> [TAIL_CHAR]"
proof -
  from extractMessages_elem[OF assms] obtain p where
    m: "m = trim p @ [TAIL_CHAR]" and ne: "trim p \<noteq> []" and nt: "TAIL_CHAR \<notin> set (trim p)"
    by blast
  have e: "endsWith m [TAIL_CHAR]" by (simp add: m endsWith_def)
  have b: "butlast m = trim p" by (simp add: m)
  have h: "\<not> isWhiteSpace (hd m)" using trim_hd[OF ne] ne by (simp add: m)
  have l: "\<not> isWhiteSpace (last m)" using tail_not_ws by (simp add: m)
  have t: "trim m = m" using h l by (intro trim_id) (simp_all add: m)
  show ?thesis using e b h l t ne nt by (auto simp: m)
qed


theorem C10_extracted_frame_shape_witness:
  "''+ACK:a$'' \<in> set (extractMessages '' +ACK:a $ $x'')
   \<and> endsWith ''+ACK:a$'' [TAIL_CHAR] \<and> TAIL_CHAR \<notin> set (butlast ''+ACK:a$'')
   \<and> trim ''+ACK:a$'' = ''+ACK:a$''"
proof -
  have m: "''+ACK:a$'' \<in> set (extractMessages '' +ACK:a $ $x'')"
    by (simp add: extractMessages_def split_str_def trim_def trimStart_def trimEnd_def
        isWhiteSpace_def TAIL_CHAR_def)
  from C10_extracted_frame_shape[OF m] m show ?thesis by simp
qed

text \<open>
  Claim C2, as the code has it.  A buffer made of \<open>N\<close> segments, each a text without
  terminator that is not blank, each followed by one terminator, has \<open>N\<close> terminators and
  yields exactly \<open>N\<close> frame texts in the order of the segments: the segment without its
  surrounding white space, then the terminator.  Each returned text ends with the
  terminator and holds exactly one.
\<close>

theorem C2_extract_concatenated_frames:
  assumes "\<forall>f \<in> set bodies. TAIL_CHAR \<notin> set f \<and> trim f \<noteq> []"
  shows "extractMessages (concat (map (\<lambda>f. f @ [TAIL_CHAR]) bodies))
           = map (\<lambda>f. trim f @ [TAIL_CHAR]) bodies
         \<and> length (extractMessages (concat (map (\<lambda>f. f @ [TAIL_CHAR]) bodies)))
           = count_list (concat (map (\<lambda>f. f @ [TAIL_CHAR]) bodies)) TAIL_CHAR
         \<and> (\<forall>m \<in> set (extractMessages (concat (map (\<lambda>f. f @ [TAIL_CHAR]) bodies))).
               endsWith m [TAIL_CHAR] \<and> count_list m TAIL_CHAR = 1)"
proof -
  let ?b = "concat (map (\<lambda>f. f @ [TAIL_CHAR]) bodies)"
  have sp: "split_str ?b TAIL_CHAR = bodies @ [[]]"
    using assms by (intro split_str_frames) simp
  have fl: "filter (\<lambda>p. trim p \<noteq> []) bodies = bodies"
    using assms by (simp add: filter_id_conv)
  have ex: "extractMessages ?b = map (\<lambda>f. trim f @ [TAIL_CHAR]) bodies"
    by (simp add: extractMessages_eq sp fl)
  have cnt: "count_list ?b TAIL_CHAR = length bodies"
    using assms by (intro count_frames) simp
  have each: "endsWith m [TAIL_CHAR] \<and> count_list m TAIL_CHAR = 1"
    if "m \<in> set (extractMessages ?b)" for m
  proof -
    from extractMessages_elem[OF that] obtain p where
      m: "m = trim p @ [TAIL_CHAR]" and nt: "TAIL_CHAR \<notin> set (trim p)" by blast
    show ?thesis using nt by (simp add: m endsWith_def count_list_0_iff)
  qed
  show ?thesis using ex cnt each by simp
qed


theorem C2_extract_concatenated_frames_witness:
  "TAIL_CHAR \<notin> set ''+ACK:a'' \<and> trim ''+ACK:a'' \<noteq> []
   \<and> TAIL_CHAR \<notin> set '' +ACK:b'' \<and> trim '' +ACK:b'' \<noteq> []
   \<and> extractMessages ''+ACK:a$ +ACK:b$'' = [''+ACK:a$'', ''+ACK:b$'']
   \<and> count_list ''+ACK:a$ +ACK:b$'' TAIL_CHAR = 2"
proof -
  have h: "\<forall>f \<in> set [''+ACK:a'', '' +ACK:b'']. TAIL_CHAR \<notin> set f \<and> trim f \<noteq> []"
    by (simp add: trim_def trimStart_def trimEnd_def isWhiteSpace_def TAIL_CHAR_def)
  from C2_extract_concatenated_frames[OF h] h show ?thesis
    by (simp add: trim_def trimStart_def trimEnd_def isWhiteSpace_def TAIL_CHAR_def)
qed

text \<open>
  Claim C2 as stated fails where a segment between two terminators is empty: this buffer
  starts with a frame and ends with a terminator, holds three terminators, and yields
  two frame texts.
\<close>

theorem C2_empty_segment_counterexample:
  "count_list ''+ACK:GTHBD,1,2,3,4,5$$+ACK:GTHBD,1,2,3,4,6$'' TAIL_CHAR = 3
   \<and> startsWith ''+ACK:GTHBD,1,2,3,4,5$$+ACK:GTHBD,1,2,3,4,6$'' ''+ACK:''
   \<and> endsWith ''+ACK:GTHBD,1,2,3,4,5$$+ACK:GTHBD,1,2,3,4,6$'' [TAIL_CHAR]
   \<and> extractMessages ''+ACK:GTHBD,1,2,3,4,5$$+ACK:GTHBD,1,2,3,4,6$''
       = [''+ACK:GTHBD,1,2,3,4,5$'', ''+ACK:GTHBD,1,2,3,4,6$'']
   \<and> length (extractMessages ''+ACK:GTHBD,1,2,3,4,5$$+ACK:GTHBD,1,2,3,4,6$'')
       \<noteq> count_list ''+ACK:GTHBD,1,2,3,4,5$$+ACK:GTHBD,1,2,3,4,6$'' TAIL_CHAR"
  by (simp add: TAIL_CHAR_def startsWith_def endsWith_def extractMessages_def split_str_def
      trim_def trimStart_def trimEnd_def isWhiteSpace_def)


section \<open>Decoding\<close>

text \<open>
  Claim C1.  A Resp frame text starts with the Resp prefix and ends with the terminator;
  being one terminator-delimited message, it holds the terminator nowhere else, as does
  every text that \<^const>\<open>extractMessages\<close> hands to the decoder.  Let \<open>fields\<close> be the
  comma-separated fields of the text without prefix and terminator.  With fewer than 6
  fields the decoder fails with \<^const>\<open>MalformedResp\<close>; with at least 6 it succeeds, and
  the frame has the first four fields as command word, protocol version, device
  identifier and device name, and the last two fields as send time and sequence number,
  however many fields lie between.  The count of the fields decides between failure and
  success for every text with the prefix that ends with the terminator.
\<close>

theorem C1_resp_fields:
  assumes "startsWith t ''+RESP:''" and "endsWith t [TAIL_CHAR]"
  shows "let fields = split_str (butlast (substring t 6)) (CHR '','') in
           (length fields < 6 \<longrightarrow> parseMessage t = failure MalformedResp)
         \<and> (6 \<le> length fields \<longrightarrow> success (parseMessage t))
         \<and> (6 \<le> length fields \<and> TAIL_CHAR \<notin> set (butlast t) \<longrightarrow>
              message (parseMessage t) =
                Some \<lparr>frameType = RESP,
                      commandWord = fields ! 0,
                      fullProtocolVersion = fields ! 1,
                      uniqueId = fields ! 2,
                      BaseMessage.deviceName = fields ! 3,
                      sendTime = fields ! (length fields - 2),
                      countNumber = fields ! (length fields - 1),
                      rawMessage = t\<rparr>)"
proof -
  let ?body = "substring t 6"
  let ?fields = "split_str (butlast ?body) (CHR '','')"
  let ?parts = "split_str (replace ?body ''$'' '''') (CHR '','')"
  from startsWithD[OF assms(1)] obtain r where r: "t = ''+RESP:'' @ r" ..
  from assms(2) have rne: "r \<noteq> []" and rl: "last r = TAIL_CHAR"
    by (auto simp: r endsWith_tail TAIL_CHAR_def split: if_splits)
  have body: "?body = r" by (simp add: r substring_def)
  have eb: "endsWith ?body [TAIL_CHAR]" using rne rl by (simp add: body endsWith_tail)
  have len: "length ?parts = length ?fields" using eb by (rule length_parts)
  have pm: "parseMessage t = parseRespMessage t" using assms by (rule parseMessage_resp)
  have short: "parseMessage t = failure MalformedResp" if "length ?fields < 6"
    using that len by (simp add: pm parseRespMessage_def Let_def)
  have ok: "success (parseMessage t)" if "6 \<le> length ?fields"
    using that len by (simp add: pm parseRespMessage_def Let_def)
  have full: "message (parseMessage t) =
                Some \<lparr>frameType = RESP,
                      commandWord = ?fields ! 0,
                      fullProtocolVersion = ?fields ! 1,
                      uniqueId = ?fields ! 2,
                      BaseMessage.deviceName = ?fields ! 3,
                      sendTime = ?fields ! (length ?fields - 2),
                      countNumber = ?fields ! (length ?fields - 1),
                      rawMessage = t\<rparr>"
    if six: "6 \<le> length ?fields" and one: "TAIL_CHAR \<notin> set (butlast t)"
  proof -
    have "butlast t = ''+RESP:'' @ butlast r" using rne by (simp add: r butlast_append)
    with one have "TAIL_CHAR \<notin> set (butlast ?body)" by (simp add: body)
    with eb have "replace ?body ''$'' '''' = butlast ?body" by (rule parts_single_tail)
    then have pf: "?parts = ?fields" by simp
    show ?thesis using six
      by (simp add: pm parseRespMessage_def Let_def pf partOrEmpty_six)
  qed
  show ?thesis using short ok full by (simp add: Let_def)
qed


theorem C1_resp_fields_witness:
  "''+RESP:GTFRI,V,IMEI,NAME,1,2,3,TIME,0029$''
     \<in> set (extractMessages ''+RESP:GTFRI,V,IMEI,NAME,1,2,3,TIME,0029$+RESP:GTFRI,V,IMEI,NAME,0029$'')
   \<and> startsWith ''+RESP:GTFRI,V,IMEI,NAME,1,2,3,TIME,0029$'' ''+RESP:''
   \<and> endsWith ''+RESP:GTFRI,V,IMEI,NAME,1,2,3,TIME,0029$'' [TAIL_CHAR]
   \<and> TAIL_CHAR \<notin> set (butlast ''+RESP:GTFRI,V,IMEI,NAME,1,2,3,TIME,0029$'')
   \<and> message (parseMessage ''+RESP:GTFRI,V,IMEI,NAME,1,2,3,TIME,0029$'') =
        Some \<lparr>frameType = RESP, commandWord = ''GTFRI'', fullProtocolVersion = ''V'',
              uniqueId = ''IMEI'', BaseMessage.deviceName = ''NAME'', sendTime = ''TIME'',
              countNumber = ''0029'',
              rawMessage = ''+RESP:GTFRI,V,IMEI,NAME,1,2,3,TIME,0029$''\<rparr>
   \<and> startsWith ''+RESP:GTFRI,V,IMEI,NAME,0029$'' ''+RESP:''
   \<and> endsWith ''+RESP:GTFRI,V,IMEI,NAME,0029$'' [TAIL_CHAR]
   \<and> parseMessage ''+RESP:GTFRI,V,IMEI,NAME,0029$'' = failure MalformedResp"
proof -
  have x: "''+RESP:GTFRI,V,IMEI,NAME,1,2,3,TIME,0029$''
     \<in> set (extractMessages ''+RESP:GTFRI,V,IMEI,NAME,1,2,3,TIME,0029$+RESP:GTFRI,V,IMEI,NAME,0029$'')"
    by (simp add: extractMessages_def split_str_def trim_def trimStart_def trimEnd_def
        isWhiteSpace_def TAIL_CHAR_def)
  note one = extractMessages_single_terminator[OF x]
  have st: "startsWith ''+RESP:GTFRI,V,IMEI,NAME,1,2,3,TIME,0029$'' ''+RESP:''"
    by (simp add: startsWith_def)
  from C1_resp_fields[OF st conjunct1[OF one]] one
       C1_resp_fields[of "''+RESP:GTFRI,V,IMEI,NAME,0029$''"] x
  show ?thesis
    by (simp add: startsWith_def endsWith_def substring_def split_str_def TAIL_CHAR_def Let_def)
qed

text \<open>
  A text with a terminator inside is not a frame text, and \<^const>\<open>extractMessages\<close>
  returns none (\<open>extractMessages_single_terminator\<close>).  Were the decoder handed one,
  \<^verbatim>\<open>replace("$", "")\<close> would remove its first terminator, not its last: the command word
  loses its \<open>$\<close> and the sequence number keeps the final one.
\<close>

lemma decode_interior_terminator:
  "startsWith ''+RESP:GTFRI$,V,IMEI,NAME,TIME,0029$'' ''+RESP:''
   \<and> endsWith ''+RESP:GTFRI$,V,IMEI,NAME,TIME,0029$'' [TAIL_CHAR]
   \<and> split_str (butlast (substring ''+RESP:GTFRI$,V,IMEI,NAME,TIME,0029$'' 6)) (CHR '','')
       = [''GTFRI$'', ''V'', ''IMEI'', ''NAME'', ''TIME'', ''0029'']
   \<and> map_option commandWord (message (parseMessage ''+RESP:GTFRI$,V,IMEI,NAME,TIME,0029$''))
       = Some ''GTFRI''
   \<and> map_option countNumber (message (parseMessage ''+RESP:GTFRI$,V,IMEI,NAME,TIME,0029$''))
       = Some ''0029$''
   \<and> map_option countNumber (message (parseMessage ''+RESP:GTFRI$,V,IMEI,NAME,TIME,0029$''))
       \<noteq> Some (last (split_str (butlast (substring ''+RESP:GTFRI$,V,IMEI,NAME,TIME,0029$'' 6))
                         (CHR '','')))"
  by (simp add: eval_defs)



subsection \<open>The shape of a decoding result\<close>

lemma parseAckMessage_shape:
  "parseAckMessage m = failure MalformedAck
   \<or> (\<exists>f. parseAckMessage m =
            \<lparr>success = True, message = Some f, error = None,
             needsAck = Some (commandWord f = GTHBD),
             ackMessage = Some (if commandWord f = GTHBD
                                then generateSackMessage (Some (commandWord f))
                                       (Some (fullProtocolVersion f)) (Some (countNumber f))
                                else [])\<rparr>
          \<and> frameType f = ACK \<and> rawMessage f = m)"
  by (simp add: parseAckMessage_def Let_def)

lemma parseRespMessage_shape:
  "parseRespMessage m = failure MalformedResp
   \<or> (\<exists>f. parseRespMessage m =
            \<lparr>success = True, message = Some f, error = None, needsAck = Some True,
             ackMessage = Some (generateSackMessage None None (Some (countNumber f)))\<rparr>
          \<and> frameType f = RESP \<and> rawMessage f = m)"
  by (simp add: parseRespMessage_def Let_def)

lemma parseBuffMessage_shape:
  "parseBuffMessage m = failure MalformedResp
   \<or> (\<exists>f. parseBuffMessage m =
            \<lparr>success = True, message = Some f, error = None, needsAck = Some True,
             ackMessage = Some (generateSackMessage None None (Some (countNumber f)))\<rparr>
          \<and> frameType f = BUFF \<and> rawMessage f = m)"
  using parseRespMessage_shape[of "replace m ''+BUFF:'' ''+RESP:''"]
  by (auto simp: parseBuffMessage_def Let_def failure_def)

lemma parseMessage_shape:
  "(\<exists>e. parseMessage t = failure e)
   \<or> (\<exists>f. parseMessage t =
            \<lparr>success = True, message = Some f, error = None,
             needsAck = Some (frameType f = ACK \<longrightarrow> commandWord f = GTHBD),
             ackMessage = Some (if frameType f = ACK then
                                  (if commandWord f = GTHBD
                                   then generateSackMessage (Some (commandWord f))
                                          (Some (fullProtocolVersion f)) (Some (countNumber f))
                                   else [])
                                else generateSackMessage None None (Some (countNumber f)))\<rparr>
          \<and> frameType f \<noteq> SACK \<and> rawMessage f = trim t)"
proof (cases "endsWith (trim t) [TAIL_CHAR]")
  case False
  then have "parseMessage t = failure MissingTerminator" by (simp add: parseMessage_def)
  then show ?thesis by blast
next
  case True
  show ?thesis
  proof (cases "identifyFrameType (trim t)")
    case None
    then have "parseMessage t = failure UnknownFrameType"
      using True by (simp add: parseMessage_def)
    then show ?thesis by blast
  next
    case (Some k)
    show ?thesis
    proof (cases k)
      case ACK
      then have pm: "parseMessage t = parseAckMessage (trim t)"
        using True Some by (simp add: parseMessage_def)
      from parseAckMessage_shape[of "trim t"] show ?thesis
      proof (elim disjE exE conjE)
        assume "parseAckMessage (trim t) = failure MalformedAck"
        then show ?thesis using pm by auto
      next
        fix f
        assume "parseAckMessage (trim t) =
            \<lparr>success = True, message = Some f, error = None,
             needsAck = Some (commandWord f = GTHBD),
             ackMessage = Some (if commandWord f = GTHBD
                                then generateSackMessage (Some (commandWord f))
                                       (Some (fullProtocolVersion f)) (Some (countNumber f))
                                else [])\<rparr>"
          and "frameType f = ACK" and "rawMessage f = trim t"
        then show ?thesis using pm by (intro disjI2 exI[of _ f]) simp
      qed
    next
      case RESP
      then have pm: "parseMessage t = parseRespMessage (trim t)"
        using True Some by (simp add: parseMessage_def)
      from parseRespMessage_shape[of "trim t"] show ?thesis
      proof (elim disjE exE conjE)
        assume "parseRespMessage (trim t) = failure MalformedResp"
        then show ?thesis using pm by auto
      next
        fix f
        assume "parseRespMessage (trim t) =
            \<lparr>success = True, message = Some f, error = None, needsAck = Some True,
             ackMessage = Some (generateSackMessage None None (Some (countNumber f)))\<rparr>"
          and "frameType f = RESP" and "rawMessage f = trim t"
        then show ?thesis using pm by (intro disjI2 exI[of _ f]) simp
      qed
    next
      case BUFF
      then have pm: "parseMessage t = parseBuffMessage (trim t)"
        using True Some by (simp add: parseMessage_def)
      from parseBuffMessage_shape[of "trim t"] show ?thesis
      proof (elim disjE exE conjE)
        assume "parseBuffMessage (trim t) = failure MalformedResp"
        then show ?thesis using pm by auto
      next
        fix f
        assume "parseBuffMessage (trim t) =
            \<lparr>success = True, message = Some f, error = None, needsAck = Some True,
             ackMessage = Some (generateSackMessage None None (Some (countNumber f)))\<rparr>"
          and "frameType f = BUFF" and "rawMessage f = trim t"
        then show ?thesis using pm by (intro disjI2 exI[of _ f]) simp
      qed
    next
      case SACK
      then have "parseMessage t = failure (UnsupportedFrameType SACK)"
        using True Some by (simp add: parseMessage_def)
      then show ?thesis by blast
    qed
  qed
qed

lemma parseMessage_trim: "parseMessage (trim t) = parseMessage t"
  by (simp add: parseMessage_def trim_idem)

lemma generateSackMessage_short:
  "generateSackMessage None None (Some n) = ''+SACK:'' @ (if n = [] then ''0000'' else n) @ ''$''"
  by (simp add: generateSackMessage_def truthy_def orElse_def)

lemma generateSackMessage_long:
  "generateSackMessage (Some c) (Some v) (Some n) =
     (if c \<noteq> [] \<and> v \<noteq> []
      then ''+SACK:'' @ c @ '','' @ take 6 v @ '','' @ (if n = [] then ''0000'' else n) @ ''$''
      else ''+SACK:'' @ (if n = [] then ''0000'' else n) @ ''$'')"
  by (simp add: generateSackMessage_def truthy_def orElse_def substring0_def)


lemma trimEnd_append:
  assumes "p \<noteq> []" "\<not> isWhiteSpace (last p)"
  shows "trimEnd (p @ s) = p @ trimEnd s"
proof (cases "\<forall>x \<in> set s. isWhiteSpace x")
  case True
  then have "trimEnd s = []" by (simp add: trimEnd_def)
  moreover have "dropWhile isWhiteSpace (rev p) = rev p"
    using assms by (cases "rev p") (auto simp: last_rev hd_rev)
  ultimately show ?thesis using True by (simp add: trimEnd_def dropWhile_append)
next
  case False
  then show ?thesis by (auto simp: trimEnd_def dropWhile_append)
qed

lemma trim_prefixed:
  assumes "\<not> isWhiteSpace c" "\<not> isWhiteSpace (last (c # p))"
  shows "trim ((c # p) @ s) = (c # p) @ trimEnd s"
proof -
  have "trimStart ((c # p) @ s) = (c # p) @ s" using assms(1) by (simp add: trimStart_def)
  then show ?thesis using trimEnd_append[of "c # p" s] assms(2) by (simp add: trim_def)
qed

lemma endsWith_prefixed:
  assumes "p \<noteq> []" "last p \<noteq> c"
  shows "endsWith (p @ s) [c] \<longleftrightarrow> endsWith s [c]"
  using assms by (cases "s = []") (auto simp: endsWith_tail)


text \<open>
  Claim C4.  When decoding a text succeeds with frame \<open>f\<close>, decoding the raw text kept in
  \<open>f\<close> succeeds too and gives the same result, hence a frame equal to \<open>f\<close> in every
  field, for Ack, Resp and Buff frames alike.
\<close>

theorem C4_redecode_raw:
  assumes "success (parseMessage t)" and "message (parseMessage t) = Some f"
  shows "parseMessage (rawMessage f) = parseMessage t
         \<and> success (parseMessage (rawMessage f))
         \<and> message (parseMessage (rawMessage f)) = Some f"
proof -
  from parseMessage_shape[of t] assms have "rawMessage f = trim t"
    by (auto simp: failure_def)
  then have "parseMessage (rawMessage f) = parseMessage t" by (simp add: parseMessage_trim)
  with assms show ?thesis by simp
qed


theorem C4_redecode_raw_witness:
  "success (parseMessage ''  +BUFF:GTFRI,V,IMEI,NAME,1,2,TIME,0029$ '')
   \<and> message (parseMessage ''  +BUFF:GTFRI,V,IMEI,NAME,1,2,TIME,0029$ '')
       = Some \<lparr>frameType = BUFF, commandWord = ''GTFRI'', fullProtocolVersion = ''V'',
               uniqueId = ''IMEI'', BaseMessage.deviceName = ''NAME'',
               sendTime = ''TIME'', countNumber = ''0029'',
               rawMessage = ''+BUFF:GTFRI,V,IMEI,NAME,1,2,TIME,0029$''\<rparr>
   \<and> message (parseMessage ''+BUFF:GTFRI,V,IMEI,NAME,1,2,TIME,0029$'')
       = Some \<lparr>frameType = BUFF, commandWord = ''GTFRI'', fullProtocolVersion = ''V'',
               uniqueId = ''IMEI'', BaseMessage.deviceName = ''NAME'',
               sendTime = ''TIME'', countNumber = ''0029'',
               rawMessage = ''+BUFF:GTFRI,V,IMEI,NAME,1,2,TIME,0029$''\<rparr>"
proof -
  let ?t = "''  +BUFF:GTFRI,V,IMEI,NAME,1,2,TIME,0029$ ''"
  let ?f = "\<lparr>frameType = BUFF, commandWord = ''GTFRI'', fullProtocolVersion = ''V'',
               uniqueId = ''IMEI'', BaseMessage.deviceName = ''NAME'',
               sendTime = ''TIME'', countNumber = ''0029'',
               rawMessage = ''+BUFF:GTFRI,V,IMEI,NAME,1,2,TIME,0029$''\<rparr>"
  have s: "success (parseMessage ?t)" by (simp add: eval_defs)
  have m: "message (parseMessage ?t) = Some ?f" by (simp add: eval_defs)
  from C4_redecode_raw[OF s m] s m show ?thesis by simp
qed


text \<open>
  Claim C9.  For a text that starts with the Buff prefix, the Buff decoder gives what the
  Resp decoder gives on the text with the Resp prefix in place of the Buff prefix, with
  the kind set back to Buff and the raw text set back to the text it was given; the whole
  decoder does the same, the raw text being the given text without surrounding white
  space, as it keeps it for every kind.  A failure is the Resp decoder's failure, and
  the Buff text decodes exactly when the Resp-shaped text does.
\<close>

theorem C9_buff_as_resp:
  assumes "startsWith t ''+BUFF:''"
  shows "parseBuffMessage t = asBuff t (parseRespMessage (''+RESP:'' @ substring t 6))
       \<and> parseMessage t = asBuff (trim t) (parseMessage (''+RESP:'' @ substring t 6))
       \<and> (endsWith t [TAIL_CHAR] \<longrightarrow>
            parseMessage t = asBuff t (parseMessage (''+RESP:'' @ substring t 6)))
       \<and> error (parseMessage t) = error (parseMessage (''+RESP:'' @ substring t 6))
       \<and> success (parseMessage t) = success (parseMessage (''+RESP:'' @ substring t 6))"
proof -
  from startsWithD[OF assms] obtain r where r: "t = ''+BUFF:'' @ r" ..
  have sub: "substring t 6 = r" by (simp add: r substring_def)
  have rep: "replace m ''+BUFF:'' ''+RESP:'' = ''+RESP:'' @ drop 6 m" if "startsWith m ''+BUFF:''" for m
    using replace_prefix[OF that, of "''+RESP:''"] by (simp add: eval_nat_numeral)
  have buff: "parseBuffMessage m = asBuff m (parseRespMessage (''+RESP:'' @ drop 6 m))"
    if "startsWith m ''+BUFF:''" for m
    using parseRespMessage_shape[of "''+RESP:'' @ drop 6 m"]
    by (auto simp: parseBuffMessage_def rep[OF that] asBuff_def failure_def)
  have c1: "parseBuffMessage t = asBuff t (parseRespMessage (''+RESP:'' @ substring t 6))"
    using buff[OF assms] by (simp add: substring_def)
  have tb: "trim t = ''+BUFF:'' @ trimEnd r"
    unfolding r using trim_prefixed[of "CHR ''+''" "''BUFF:''" r] by (simp add: isWhiteSpace_def)
  have tr: "trim (''+RESP:'' @ r) = ''+RESP:'' @ trimEnd r"
    using trim_prefixed[of "CHR ''+''" "''RESP:''" r] by (simp add: isWhiteSpace_def)
  have eb: "endsWith (''+BUFF:'' @ trimEnd r) [TAIL_CHAR] = endsWith (trimEnd r) [TAIL_CHAR]"
    by (rule endsWith_prefixed) (simp_all add: TAIL_CHAR_def)
  have er: "endsWith (''+RESP:'' @ trimEnd r) [TAIL_CHAR] = endsWith (trimEnd r) [TAIL_CHAR]"
    by (rule endsWith_prefixed) (simp_all add: TAIL_CHAR_def)
  have ib: "identifyFrameType (''+BUFF:'' @ x) = Some BUFF" for x
    by (simp add: identifyFrameType_def startsWith_def)
  have ir: "identifyFrameType (''+RESP:'' @ x) = Some RESP" for x
    by (simp add: identifyFrameType_def startsWith_def)
  have sb: "startsWith (''+BUFF:'' @ x) ''+BUFF:''" for x by (simp add: startsWith_def)
  have c2: "parseMessage t = asBuff (trim t) (parseMessage (''+RESP:'' @ substring t 6))"
  proof (cases "endsWith (trimEnd r) [TAIL_CHAR]")
    case False
    then show ?thesis
      by (simp add: parseMessage_def sub tb tr eb er asBuff_def failure_def del: append.simps)
  next
    case True
    have "parseMessage t = parseBuffMessage (''+BUFF:'' @ trimEnd r)"
      using True by (simp add: parseMessage_def tb eb ib del: append.simps)
    also have "\<dots> = asBuff (''+BUFF:'' @ trimEnd r) (parseRespMessage (''+RESP:'' @ trimEnd r))"
      using buff[OF sb, of "trimEnd r"] by simp
    also have "parseRespMessage (''+RESP:'' @ trimEnd r) = parseMessage (''+RESP:'' @ r)"
      using True by (simp add: parseMessage_def tr er ir del: append.simps)
    finally show ?thesis by (simp add: sub tb)
  qed
  have c3: "error (asBuff orig r') = error r'" for orig r'
    by (simp add: asBuff_def split: option.splits)
  have c4: "success (asBuff orig r') = success r'" for orig r'
    by (simp add: asBuff_def split: option.splits)
  have c5: "trim t = t" if "endsWith t [TAIL_CHAR]"
    using assms that by (rule trim_frame)
  show ?thesis using c1 c2 c3 c4 c5 by simp
qed

theorem C9_buff_as_resp_witness:
  "startsWith ''+BUFF:GTFRI,V,IMEI,NAME,1,2,TIME,0029$'' ''+BUFF:''
   \<and> message (parseMessage ''+RESP:GTFRI,V,IMEI,NAME,1,2,TIME,0029$'')
       = Some \<lparr>frameType = RESP, commandWord = ''GTFRI'', fullProtocolVersion = ''V'',
               uniqueId = ''IMEI'', BaseMessage.deviceName = ''NAME'',
               sendTime = ''TIME'', countNumber = ''0029'',
               rawMessage = ''+RESP:GTFRI,V,IMEI,NAME,1,2,TIME,0029$''\<rparr>
   \<and> message (parseMessage ''+BUFF:GTFRI,V,IMEI,NAME,1,2,TIME,0029$'')
       = Some \<lparr>frameType = BUFF, commandWord = ''GTFRI'', fullProtocolVersion = ''V'',
               uniqueId = ''IMEI'', BaseMessage.deviceName = ''NAME'',
               sendTime = ''TIME'', countNumber = ''0029'',
               rawMessage = ''+BUFF:GTFRI,V,IMEI,NAME,1,2,TIME,0029$''\<rparr>
   \<and> startsWith ''+BUFF:GTFRI,V,IMEI$'' ''+BUFF:''
   \<and> error (parseMessage ''+BUFF:GTFRI,V,IMEI$'') = Some MalformedResp"
proof -
  have a: "startsWith ''+BUFF:GTFRI,V,IMEI,NAME,1,2,TIME,0029$'' ''+BUFF:''"
    by (simp add: startsWith_def)
  have b: "startsWith ''+BUFF:GTFRI,V,IMEI$'' ''+BUFF:''"
    by (simp add: startsWith_def)
  have r: "parseMessage ''+RESP:GTFRI,V,IMEI,NAME,1,2,TIME,0029$''
       = \<lparr>success = True,
          message = Some \<lparr>frameType = RESP, commandWord = ''GTFRI'', fullProtocolVersion = ''V'',
               uniqueId = ''IMEI'', BaseMessage.deviceName = ''NAME'',
               sendTime = ''TIME'', countNumber = ''0029'',
               rawMessage = ''+RESP:GTFRI,V,IMEI,NAME,1,2,TIME,0029$''\<rparr>,
          error = None, needsAck = Some True, ackMessage = Some ''+SACK:0029$''\<rparr>"
    by (simp add: eval_defs)
  have e: "error (parseMessage ''+RESP:GTFRI,V,IMEI$'') = Some MalformedResp"
    by (simp add: eval_defs)
  have t: "trim ''+BUFF:GTFRI,V,IMEI,NAME,1,2,TIME,0029$''
           = ''+BUFF:GTFRI,V,IMEI,NAME,1,2,TIME,0029$''"
    by (simp add: trim_def trimStart_def trimEnd_def isWhiteSpace_def)
  have sa: "''+RESP:'' @ substring ''+BUFF:GTFRI,V,IMEI,NAME,1,2,TIME,0029$'' 6
            = ''+RESP:GTFRI,V,IMEI,NAME,1,2,TIME,0029$''"
    by (simp add: substring_def)
  have sb: "''+RESP:'' @ substring ''+BUFF:GTFRI,V,IMEI$'' 6 = ''+RESP:GTFRI,V,IMEI$''"
    by (simp add: substring_def)
  note ca = C9_buff_as_resp[OF a, unfolded sa]
  note cb = C9_buff_as_resp[OF b, unfolded sb]
  from ca have "parseMessage ''+BUFF:GTFRI,V,IMEI,NAME,1,2,TIME,0029$''
        = asBuff (trim ''+BUFF:GTFRI,V,IMEI,NAME,1,2,TIME,0029$'')
            (parseMessage ''+RESP:GTFRI,V,IMEI,NAME,1,2,TIME,0029$'')"
    by blast
  then have m: "message (parseMessage ''+BUFF:GTFRI,V,IMEI,NAME,1,2,TIME,0029$'')
       = Some \<lparr>frameType = BUFF, commandWord = ''GTFRI'', fullProtocolVersion = ''V'',
               uniqueId = ''IMEI'', BaseMessage.deviceName = ''NAME'',
               sendTime = ''TIME'', countNumber = ''0029'',
               rawMessage = ''+BUFF:GTFRI,V,IMEI,NAME,1,2,TIME,0029$''\<rparr>"
    by (simp only: r t asBuff_def) simp
  from cb have "error (parseMessage ''+BUFF:GTFRI,V,IMEI$'')
        = error (parseMessage ''+RESP:GTFRI,V,IMEI$'')"
    by blast
  then have f: "error (parseMessage ''+BUFF:GTFRI,V,IMEI$'') = Some MalformedResp"
    by (simp only: e)
  have r': "message (parseMessage ''+RESP:GTFRI,V,IMEI,NAME,1,2,TIME,0029$'')
       = Some \<lparr>frameType = RESP, commandWord = ''GTFRI'', fullProtocolVersion = ''V'',
               uniqueId = ''IMEI'', BaseMessage.deviceName = ''NAME'',
               sendTime = ''TIME'', countNumber = ''0029'',
               rawMessage = ''+RESP:GTFRI,V,IMEI,NAME,1,2,TIME,0029$''\<rparr>"
    by (simp only: r) simp
  show ?thesis using a b r' m f by blast
qed


section \<open>Acknowledgments\<close>

text \<open>
  Claim C3, as the code has it.  For a successfully decoded frame \<open>f\<close>: an Ack frame
  requires an ack exactly when its command word is the heartbeat word; the heartbeat's ack
  text is \<^verbatim>\<open>+SACK:<commandWord>,<first 6 characters of protocolVersion>,<sequenceNumber or 0000>$\<close>
  when the protocol version is not empty and \<^verbatim>\<open>+SACK:<sequenceNumber or 0000>$\<close> when it
  is empty; an Ack frame with another command word requires no ack and has an empty ack
  text; a Resp or Buff frame requires an ack with text \<^verbatim>\<open>+SACK:<sequenceNumber or 0000>$\<close>.
  The ack text is a function of the decoded frame, and the heartbeat of the specification
  yields \<^verbatim>\<open>+SACK:GTHBD,80200A,0029$\<close>.
\<close>

theorem C3_ack_policy:
  assumes "success (parseMessage t)" and "message (parseMessage t) = Some f"
  shows "(frameType f = ACK \<longrightarrow>
            needsAck (parseMessage t) = Some (commandWord f = GTHBD)
          \<and> (commandWord f = GTHBD \<and> fullProtocolVersion f \<noteq> [] \<longrightarrow>
               ackMessage (parseMessage t) =
                 Some (''+SACK:'' @ commandWord f @ '','' @ take 6 (fullProtocolVersion f) @ '',''
                       @ (if countNumber f = [] then ''0000'' else countNumber f) @ ''$''))
          \<and> (commandWord f = GTHBD \<and> fullProtocolVersion f = [] \<longrightarrow>
               ackMessage (parseMessage t) =
                 Some (''+SACK:'' @ (if countNumber f = [] then ''0000'' else countNumber f)
                       @ ''$''))
          \<and> (commandWord f \<noteq> GTHBD \<longrightarrow> ackMessage (parseMessage t) = Some []))
       \<and> (frameType f = RESP \<or> frameType f = BUFF \<longrightarrow>
            needsAck (parseMessage t) = Some True
          \<and> ackMessage (parseMessage t) =
              Some (''+SACK:'' @ (if countNumber f = [] then ''0000'' else countNumber f)
                    @ ''$''))
       \<and> frameType f \<noteq> SACK
       \<and> ackMessage (parseMessage
            ''+ACK:GTHBD,80200A0303,865585040014007,GL33CG,20190517022529,0029$'')
          = Some ''+SACK:GTHBD,80200A,0029$''"
proof -
  have conc: "ackMessage (parseMessage
            ''+ACK:GTHBD,80200A0303,865585040014007,GL33CG,20190517022529,0029$'')
          = Some ''+SACK:GTHBD,80200A,0029$''"
    by (simp add: eval_defs)
  from parseMessage_shape[of t] assms have
    r: "parseMessage t =
            \<lparr>success = True, message = Some f, error = None,
             needsAck = Some (frameType f = ACK \<longrightarrow> commandWord f = GTHBD),
             ackMessage = Some (if frameType f = ACK then
                                  (if commandWord f = GTHBD
                                   then generateSackMessage (Some (commandWord f))
                                          (Some (fullProtocolVersion f)) (Some (countNumber f))
                                   else [])
                                else generateSackMessage None None (Some (countNumber f)))\<rparr>"
    and k: "frameType f \<noteq> SACK"
    by (auto simp: failure_def)
  have a: "needsAck (parseMessage t) = Some (frameType f = ACK \<longrightarrow> commandWord f = GTHBD)"
    by (subst r) simp
  have b: "ackMessage (parseMessage t) =
             Some (if frameType f = ACK then
                                  (if commandWord f = GTHBD
                                   then generateSackMessage (Some (commandWord f))
                                          (Some (fullProtocolVersion f)) (Some (countNumber f))
                                   else [])
                                else generateSackMessage None None (Some (countNumber f)))"
    by (subst r) simp
  show ?thesis
    unfolding a b using k conc
    by (auto simp: generateSackMessage_short generateSackMessage_long GTHBD_def)
qed

theorem C3_ack_policy_witness:
  "success (parseMessage ''+ACK:GTHBD,80200A0303,865585040014007,GL33CG,20190517022529,0029$'')
   \<and> message (parseMessage ''+ACK:GTHBD,80200A0303,865585040014007,GL33CG,20190517022529,0029$'')
       = Some \<lparr>frameType = ACK, commandWord = ''GTHBD'', fullProtocolVersion = ''80200A0303'',
               uniqueId = ''865585040014007'', BaseMessage.deviceName = ''GL33CG'',
               sendTime = ''20190517022529'', countNumber = ''0029'',
               rawMessage = ''+ACK:GTHBD,80200A0303,865585040014007,GL33CG,20190517022529,0029$''\<rparr>
   \<and> needsAck (parseMessage ''+ACK:GTHBD,80200A0303,865585040014007,GL33CG,20190517022529,0029$'')
       = Some True
   \<and> ackMessage (parseMessage ''+ACK:GTHBD,80200A0303,865585040014007,GL33CG,20190517022529,0029$'')
       = Some ''+SACK:GTHBD,80200A,0029$''"
proof -
  let ?t = "''+ACK:GTHBD,80200A0303,865585040014007,GL33CG,20190517022529,0029$''"
  let ?f = "\<lparr>frameType = ACK, commandWord = ''GTHBD'', fullProtocolVersion = ''80200A0303'',
               uniqueId = ''865585040014007'', BaseMessage.deviceName = ''GL33CG'',
               sendTime = ''20190517022529'', countNumber = ''0029'',
               rawMessage = ?t\<rparr>"
  have s: "success (parseMessage ?t)" by (simp add: eval_defs)
  have m: "message (parseMessage ?t) = Some ?f" by (simp add: eval_defs)
  from C3_ack_policy[OF s m] s m show ?thesis by (simp add: GTHBD_def)
qed


text \<open>
  Claim C3 as stated fails for a heartbeat whose protocol version field is empty:
  \<^verbatim>\<open>generateSackMessage\<close> takes the long form only when command word and protocol
  version are both non-empty, so the ack is the short \<^verbatim>\<open>+SACK:0029$\<close>.
\<close>

theorem C3_empty_version_counterexample:
  "success (parseMessage ''+ACK:GTHBD,,865585040014007,GL33CG,20190517022529,0029$'')
   \<and> message (parseMessage ''+ACK:GTHBD,,865585040014007,GL33CG,20190517022529,0029$'')
       = Some \<lparr>frameType = ACK, commandWord = ''GTHBD'', fullProtocolVersion = [],
               uniqueId = ''865585040014007'', BaseMessage.deviceName = ''GL33CG'',
               sendTime = ''20190517022529'', countNumber = ''0029'',
               rawMessage = ''+ACK:GTHBD,,865585040014007,GL33CG,20190517022529,0029$''\<rparr>
   \<and> needsAck (parseMessage ''+ACK:GTHBD,,865585040014007,GL33CG,20190517022529,0029$'')
       = Some True
   \<and> ackMessage (parseMessage ''+ACK:GTHBD,,865585040014007,GL33CG,20190517022529,0029$'')
       = Some ''+SACK:0029$''
   \<and> ackMessage (parseMessage ''+ACK:GTHBD,,865585040014007,GL33CG,20190517022529,0029$'')
       \<noteq> Some (''+SACK:'' @ ''GTHBD'' @ '','' @ take 6 [] @ '','' @ ''0029'' @ ''$'')"
  by (simp add: eval_defs)




section \<open>Sessions\<close>

lemma map_of_update_same: "map_of (AList.update k v al) k = Some v"
  by (simp add: update_conv')

lemma processMessage_fail:
  assumes "map_of (clients st) cid = Some c" "\<not> success (parseMessage m)"
  shows "processMessage st cid m now = (st, [LogProtocolError cid (error (parseMessage m)) m])"
  using assms by (simp add: processMessage_def)

lemma processMessage_keeps:
  assumes "map_of (clients st) cid = Some c"
  shows "\<exists>c'. map_of (clients (fst (processMessage st cid m now))) cid = Some c'
           \<and> (truthy (imei c) \<longrightarrow> imei c' = imei c
                \<and> ConnectedClient.deviceName c' = ConnectedClient.deviceName c)"
  using assms
  by (auto simp: processMessage_def Let_def map_of_update_same split: option.splits)

lemma processMessages_keeps:
  assumes "map_of (clients st) cid = Some c"
  shows "\<exists>c'. map_of (clients (fst (processMessages st cid ms now))) cid = Some c'
           \<and> (truthy (imei c) \<longrightarrow> imei c' = imei c
                \<and> ConnectedClient.deviceName c' = ConnectedClient.deviceName c)"
  using assms
proof (induction ms arbitrary: st c)
  case Nil
  then show ?case by simp
next
  case (Cons m ms)
  obtain st1 e1 where p: "processMessage st cid m now = (st1, e1)" by (cases "processMessage st cid m now")
  from processMessage_keeps[OF Cons.prems, of m now] p obtain c1 where
    c1: "map_of (clients st1) cid = Some c1"
    and k1: "truthy (imei c) \<longrightarrow> imei c1 = imei c
                \<and> ConnectedClient.deviceName c1 = ConnectedClient.deviceName c"
    by auto
  from Cons.IH[OF c1] obtain c2 where
    c2: "map_of (clients (fst (processMessages st1 cid ms now))) cid = Some c2"
    and k2: "truthy (imei c1) \<longrightarrow> imei c2 = imei c1
                \<and> ConnectedClient.deviceName c2 = ConnectedClient.deviceName c1"
    by blast
  have "fst (processMessages st cid (m # ms) now) = fst (processMessages st1 cid ms now)"
    by (simp add: p split: prod.splits)
  with c2 k1 k2 show ?case by auto
qed

lemma processMessages_append:
  "processMessages st cid (xs @ ys) now =
     (case processMessages st cid xs now of
        (st1, e1) \<Rightarrow>
          (case processMessages st1 cid ys now of (st2, e2) \<Rightarrow> (st2, e1 @ e2)))"
  by (induction xs arbitrary: st) (auto split: prod.splits)

lemma resumeTask_keeps:
  assumes "map_of (clients st) cid = Some c"
  shows "\<exists>c'. map_of (clients (fst (resumeTask st i now))) cid = Some c'
           \<and> imei c' = imei c
           \<and> ConnectedClient.deviceName c' = ConnectedClient.deviceName c
           \<and> messageCount c' = messageCount c"
  using assms
  by (auto simp: resumeTask_def Let_def map_of_map_entry split: Pending.splits)

lemma runTasks_keeps:
  assumes "map_of (clients st) cid = Some c"
  shows "\<exists>c'. map_of (clients (fst (runTasks st sched now))) cid = Some c'
           \<and> imei c' = imei c
           \<and> ConnectedClient.deviceName c' = ConnectedClient.deviceName c
           \<and> messageCount c' = messageCount c"
  using assms
proof (induction sched arbitrary: st c)
  case Nil
  then show ?case by simp
next
  case (Cons i sched)
  obtain st1 e1 where p: "resumeTask st i now = (st1, e1)" by (cases "resumeTask st i now")
  from resumeTask_keeps[OF Cons.prems, of i now] p obtain c1 where
    c1: "map_of (clients st1) cid = Some c1"
    and k1: "imei c1 = imei c"
            "ConnectedClient.deviceName c1 = ConnectedClient.deviceName c"
            "messageCount c1 = messageCount c"
    by auto
  from Cons.IH[OF c1] obtain c2 where
    c2: "map_of (clients (fst (runTasks st1 sched now))) cid = Some c2"
    and k2: "imei c2 = imei c1"
            "ConnectedClient.deviceName c2 = ConnectedClient.deviceName c1"
            "messageCount c2 = messageCount c1"
    by blast
  have "fst (runTasks st (i # sched) now) = fst (runTasks st1 sched now)"
    by (simp add: p split: prod.splits)
  with c2 k1 k2 show ?case by auto
qed

lemma processMessage_identifies:
  assumes "map_of (clients st) cid = Some c" and "\<not> truthy (imei c)"
    and "success (parseMessage frame)" and "message (parseMessage frame) = Some f"
    and "uniqueId f \<noteq> []"
  shows "\<exists>c'. map_of (clients (fst (processMessage st cid frame now))) cid = Some c'
           \<and> imei c' = Some (uniqueId f)
           \<and> ConnectedClient.deviceName c' = Some (BaseMessage.deviceName f)"
  using assms by (simp add: processMessage_def Let_def map_of_update_same)

text \<open>
  The keys of the registry stay distinct, so its length is the size of the \<^verbatim>\<open>Map\<close>.
\<close>

lemma processMessage_distinct:
  "distinct (map fst (clients st)) \<Longrightarrow>
   distinct (map fst (clients (fst (processMessage st cid m now))))"
  by (auto simp: processMessage_def Let_def distinct_update split: option.splits)

lemma processMessages_distinct:
  "distinct (map fst (clients st)) \<Longrightarrow>
   distinct (map fst (clients (fst (processMessages st cid ms now))))"
proof (induction ms arbitrary: st)
  case Nil
  then show ?case by simp
next
  case (Cons m ms)
  obtain st1 e1 where p: "processMessage st cid m now = (st1, e1)"
    by (cases "processMessage st cid m now")
  with processMessage_distinct[OF Cons.prems, of cid m now]
  have "distinct (map fst (clients st1))" by simp
  from Cons.IH[OF this] show ?case by (auto simp: p split: prod.splits)
qed

lemma handleClientData_distinct:
  "distinct (map fst (clients st)) \<Longrightarrow>
   distinct (map fst (clients (fst (handleClientData st cid data now))))"
  by (auto simp: handleClientData_def Let_def processMessages_distinct split: option.splits)

lemma socketData_distinct:
  assumes "distinct (map fst (clients st))"
  shows "distinct (map fst (clients (fst (socketData st cid data now))))"
proof -
  let ?s = "st\<lparr>initialListeners := removeAll cid (initialListeners st)\<rparr>"
  have "distinct (map fst (clients (fst (setupTcpClient ?s cid now))))"
    using assms by (simp add: setupTcpClient_def distinct_update)
  from handleClientData_distinct[OF this, of cid data now]
  have "distinct (map fst (clients (fst (initialDataHandler ?s cid data now))))"
    using assms by (auto simp: initialDataHandler_def split: prod.splits)
  then show ?thesis
    using assms handleClientData_distinct[OF assms, of cid data now]
    by (simp add: socketData_def)
qed

lemma resumeTask_distinct:
  "distinct (map fst (clients st)) \<Longrightarrow>
   distinct (map fst (clients (fst (resumeTask st i now))))"
  by (auto simp: resumeTask_def Let_def distinct_map_entry split: Pending.splits)

lemma handleConnection_distinct:
  "distinct (map fst (clients st)) \<Longrightarrow>
   distinct (map fst (clients (fst (handleConnection st cid))))"
  by (simp add: handleConnection_def)

lemmas server_eval_defs = handleClientData_def processMessage_def resumeTask_def
  sendAckMessage_def
  handleSpecificCommand_def isMessageComplete_def extractMessages_def
  demoServer_def demoClient_def demoConfig_def


text \<open>
  Claim C5.  Once a session's device identifier is set to a non-empty value, processing
  any frame, and any received buffer with all its frames, leaves the session registered
  with the same device identifier and the same device name, whatever identifier the
  frames report; so does every continuation that runs afterwards.
\<close>

theorem C5_first_writer_wins:
  assumes "map_of (clients st) cid = Some c" and "imei c = Some d" and "d \<noteq> []"
  shows "(\<exists>c'. map_of (clients (fst (processMessage st cid frame now))) cid = Some c'
              \<and> imei c' = Some d
              \<and> ConnectedClient.deviceName c' = ConnectedClient.deviceName c)
       \<and> (\<exists>c'. map_of (clients (fst (handleClientData st cid data now))) cid = Some c'
              \<and> imei c' = Some d
              \<and> ConnectedClient.deviceName c' = ConnectedClient.deviceName c)
       \<and> (\<exists>c'. map_of (clients (fst (runTasks st sched now))) cid = Some c'
              \<and> imei c' = Some d
              \<and> ConnectedClient.deviceName c' = ConnectedClient.deviceName c)"
proof -
  have t: "truthy (imei c)" using assms by (simp add: truthy_def)
  have later: "\<exists>c'. map_of (clients (fst (runTasks st sched now))) cid = Some c'
              \<and> imei c' = Some d
              \<and> ConnectedClient.deviceName c' = ConnectedClient.deviceName c"
    using runTasks_keeps[OF assms(1), of sched now] assms(2) by auto
  have one: "\<exists>c'. map_of (clients (fst (processMessage st cid frame now))) cid = Some c'
              \<and> imei c' = Some d
              \<and> ConnectedClient.deviceName c' = ConnectedClient.deviceName c"
    using processMessage_keeps[OF assms(1), of frame now] t assms(2) by auto
  have many: "\<exists>c'. map_of (clients (fst (handleClientData st cid data now))) cid = Some c'
              \<and> imei c' = Some d
              \<and> ConnectedClient.deviceName c' = ConnectedClient.deviceName c"
  proof (cases "isMessageComplete (trim data)")
    case False
    then show ?thesis using assms by (simp add: handleClientData_def)
  next
    case True
    then have "handleClientData st cid data now
               = processMessages st cid (extractMessages (trim data)) now"
      using assms(1) by (simp add: handleClientData_def)
    then show ?thesis
      using processMessages_keeps[OF assms(1), of "extractMessages (trim data)" now] t assms(2)
      by auto
  qed
  show ?thesis using one many later by blast
qed


theorem C5_first_writer_wins_witness:
  "map_of (clients identifiedServer) ''c'' = Some identifiedClient
   \<and> imei identifiedClient = Some ''1234''
   \<and> success (parseMessage ''+RESP:GTFRI,V,5678,M,1,T,002A$'')
   \<and> map_option uniqueId (message (parseMessage ''+RESP:GTFRI,V,5678,M,1,T,002A$'')) = Some ''5678''
   \<and> map_option imei
        (map_of (clients (fst (processMessage identifiedServer ''c''
            ''+RESP:GTFRI,V,5678,M,1,T,002A$'' 5))) ''c'') = Some (Some ''1234'')
   \<and> map_option ConnectedClient.deviceName
        (map_of (clients (fst (processMessage identifiedServer ''c''
            ''+RESP:GTFRI,V,5678,M,1,T,002A$'' 5))) ''c'') = Some (Some ''N'')
   \<and> map_option messageCount
        (map_of (clients (fst (processMessage identifiedServer ''c''
            ''+RESP:GTFRI,V,5678,M,1,T,002A$'' 5))) ''c'') = Some 1"
proof -
  have a: "map_of (clients identifiedServer) ''c'' = Some identifiedClient"
    by (simp add: identifiedServer_def)
  have b: "imei identifiedClient = Some ''1234''" by (simp add: identifiedClient_def)
  have s: "success (parseMessage ''+RESP:GTFRI,V,5678,M,1,T,002A$'')
   \<and> map_option uniqueId (message (parseMessage ''+RESP:GTFRI,V,5678,M,1,T,002A$'')) = Some ''5678''"
    by (simp add: eval_defs)
  have n: "map_option messageCount
        (map_of (clients (fst (processMessage identifiedServer ''c''
            ''+RESP:GTFRI,V,5678,M,1,T,002A$'' 5))) ''c'') = Some 1"
    by (simp add: server_eval_defs eval_defs update_conv' identifiedServer_def identifiedClient_def)
  from C5_first_writer_wins[OF a b, of "''+RESP:GTFRI,V,5678,M,1,T,002A$''" 5] obtain c' where
    "map_of (clients (fst (processMessage identifiedServer ''c''
            ''+RESP:GTFRI,V,5678,M,1,T,002A$'' 5))) ''c'' = Some c'"
    "imei c' = Some ''1234''"
    "ConnectedClient.deviceName c' = ConnectedClient.deviceName identifiedClient"
    by auto
  then show ?thesis using a b s n by (simp add: identifiedClient_def)
qed


text \<open>
  Claim C7.  When one of the frames extracted from a buffer fails to decode, what
  \<^verbatim>\<open>handleClientData\<close> does is what it does for the frames before it, then one
  protocol-error log entry for the failing frame, then what it does for the frames after
  it, from the state the frames before left.  The failing frame changes nothing in the
  server state: no count, no pending continuation, so no ack later.  The state reached
  is the one reached without the failing frame, the session is still registered, and
  whatever continuations run afterwards, in whatever order, they do what they do
  without the failing frame.
\<close>

theorem C7_decode_error_frame_local:
  assumes "map_of (clients st) cid = Some c"
    and "isMessageComplete (trim data)"
    and "extractMessages (trim data) = pre @ bad # post"
    and "\<not> success (parseMessage bad)"
  shows "handleClientData st cid data now =
           (case processMessages st cid pre now of
              (st1, e1) \<Rightarrow>
                (case processMessages st1 cid post now of
                   (st2, e2) \<Rightarrow>
                     (st2, e1 @ [LogProtocolError cid (error (parseMessage bad)) bad] @ e2)))
       \<and> fst (handleClientData st cid data now) = fst (processMessages st cid (pre @ post) now)
       \<and> map_of (clients (fst (handleClientData st cid data now))) cid \<noteq> None
       \<and> processMessage (fst (processMessages st cid pre now)) cid bad now
           = (fst (processMessages st cid pre now),
              [LogProtocolError cid (error (parseMessage bad)) bad])
       \<and> runTasks (fst (handleClientData st cid data now)) sched later
           = runTasks (fst (processMessages st cid (pre @ post) now)) sched later"
proof -
  obtain st1 e1 where p1: "processMessages st cid pre now = (st1, e1)"
    by (cases "processMessages st cid pre now")
  from processMessages_keeps[OF assms(1), of pre now] p1 obtain c1 where
    c1: "map_of (clients st1) cid = Some c1" by auto
  have b: "processMessage st1 cid bad now
           = (st1, [LogProtocolError cid (error (parseMessage bad)) bad])"
    using c1 assms(4) by (rule processMessage_fail)
  obtain st2 e2 where p2: "processMessages st1 cid post now = (st2, e2)"
    by (cases "processMessages st1 cid post now")
  have h: "handleClientData st cid data now = processMessages st cid (pre @ bad # post) now"
    using assms(1,2,3) by (simp add: handleClientData_def)
  have full: "processMessages st cid (pre @ bad # post) now
              = (st2, e1 @ [LogProtocolError cid (error (parseMessage bad)) bad] @ e2)"
    by (simp add: processMessages_append p1 b p2)
  have skip: "processMessages st cid (pre @ post) now = (st2, e1 @ e2)"
    by (simp add: processMessages_append p1 p2)
  from processMessages_keeps[OF c1, of post now] p2 have "map_of (clients st2) cid \<noteq> None"
    by auto
  then show ?thesis using b by (simp add: h full skip p1 p2)
qed

theorem C7_decode_error_frame_local_witness:
  "map_of (clients demoServer) ''c'' = Some demoClient
   \<and> isMessageComplete (trim ''+ACK:GTHBD,V1,1234,N,T,0029$junk$+RESP:GTFRI,V,5678,M,1,T,002A$'')
   \<and> extractMessages (trim ''+ACK:GTHBD,V1,1234,N,T,0029$junk$+RESP:GTFRI,V,5678,M,1,T,002A$'')
       = [''+ACK:GTHBD,V1,1234,N,T,0029$''] @ ''junk$'' # [''+RESP:GTFRI,V,5678,M,1,T,002A$'']
   \<and> \<not> success (parseMessage ''junk$'')
   \<and> snd (handleClientData demoServer ''c''
            ''+ACK:GTHBD,V1,1234,N,T,0029$junk$+RESP:GTFRI,V,5678,M,1,T,002A$'' 5)
       = [LogMessageReceived ''c''
            \<lparr>frameType = ACK, commandWord = ''GTHBD'', fullProtocolVersion = ''V1'',
             uniqueId = ''1234'', BaseMessage.deviceName = ''N'', sendTime = ''T'',
             countNumber = ''0029'', rawMessage = ''+ACK:GTHBD,V1,1234,N,T,0029$''\<rparr>,
          LogDeviceIdentification ''c'' ''1234'' ''N'',
          DataClientConnection ''c'' ''1234'',
          LogProtocolError ''c'' (Some UnknownFrameType) ''junk$'',
          LogMessageReceived ''c''
            \<lparr>frameType = RESP, commandWord = ''GTFRI'', fullProtocolVersion = ''V'',
             uniqueId = ''5678'', BaseMessage.deviceName = ''M'', sendTime = ''T'',
             countNumber = ''002A'', rawMessage = ''+RESP:GTFRI,V,5678,M,1,T,002A$''\<rparr>,
          DataMessage ''c''
            \<lparr>frameType = RESP, commandWord = ''GTFRI'', fullProtocolVersion = ''V'',
             uniqueId = ''5678'', BaseMessage.deviceName = ''M'', sendTime = ''T'',
             countNumber = ''002A'', rawMessage = ''+RESP:GTFRI,V,5678,M,1,T,002A$''\<rparr>]
   \<and> map_option messageCount
        (map_of (clients (fst (handleClientData demoServer ''c''
            ''+ACK:GTHBD,V1,1234,N,T,0029$junk$+RESP:GTFRI,V,5678,M,1,T,002A$'' 5))) ''c'') = Some 2
   \<and> length (pending (fst (handleClientData demoServer ''c''
            ''+ACK:GTHBD,V1,1234,N,T,0029$junk$+RESP:GTFRI,V,5678,M,1,T,002A$'' 5))) = 2
   \<and> filter (\<lambda>e. case e of SocketWrite _ _ \<Rightarrow> True | _ \<Rightarrow> False)
        (snd (runTasks (fst (handleClientData demoServer ''c''
            ''+ACK:GTHBD,V1,1234,N,T,0029$junk$+RESP:GTFRI,V,5678,M,1,T,002A$'' 5)) [1, 0, 0] 6))
       = [SocketWrite ''c'' ''+SACK:002A$'', SocketWrite ''c'' ''+SACK:GTHBD,V1,0029$'']"
proof -
  let ?d = "''+ACK:GTHBD,V1,1234,N,T,0029$junk$+RESP:GTFRI,V,5678,M,1,T,002A$''"
  let ?f1 = "\<lparr>frameType = ACK, commandWord = ''GTHBD'', fullProtocolVersion = ''V1'',
             uniqueId = ''1234'', BaseMessage.deviceName = ''N'', sendTime = ''T'',
             countNumber = ''0029'', rawMessage = ''+ACK:GTHBD,V1,1234,N,T,0029$''\<rparr>"
  let ?f3 = "\<lparr>frameType = RESP, commandWord = ''GTFRI'', fullProtocolVersion = ''V'',
             uniqueId = ''5678'', BaseMessage.deviceName = ''M'', sendTime = ''T'',
             countNumber = ''002A'', rawMessage = ''+RESP:GTFRI,V,5678,M,1,T,002A$''\<rparr>"
  let ?r1 = "\<lparr>success = True, message = Some ?f1, error = None, needsAck = Some True,
             ackMessage = Some ''+SACK:GTHBD,V1,0029$''\<rparr>"
  let ?r3 = "\<lparr>success = True, message = Some ?f3, error = None, needsAck = Some True,
             ackMessage = Some ''+SACK:002A$''\<rparr>"
  let ?s1 = "demoServer\<lparr>clients := [(''c'', demoClient\<lparr>imei := Some ''1234'',
                 deviceName := Some ''N'', messageCount := 1\<rparr>)],
               pending := [AwaitClientConnection ''c'' ?r1 ?f1]\<rparr>"
  let ?s2 = "demoServer\<lparr>clients := [(''c'', demoClient\<lparr>imei := Some ''1234'',
                 deviceName := Some ''N'', messageCount := 2\<rparr>)],
               pending := [AwaitClientConnection ''c'' ?r1 ?f1, AwaitMessage ''c'' ?r3 ?f3]\<rparr>"
  have a: "map_of (clients demoServer) ''c'' = Some demoClient" by (simp add: demoServer_def)
  have b: "isMessageComplete (trim ?d)" by (simp add: isMessageComplete_def eval_defs)
  have c: "extractMessages (trim ?d)
       = [''+ACK:GTHBD,V1,1234,N,T,0029$''] @ ''junk$'' # [''+RESP:GTFRI,V,5678,M,1,T,002A$'']"
    by (simp add: extractMessages_def eval_defs)
  have d: "\<not> success (parseMessage ''junk$'')" by (simp add: eval_defs)
  have e: "error (parseMessage ''junk$'') = Some UnknownFrameType" by (simp add: eval_defs)
  have p1: "processMessages demoServer ''c'' [''+ACK:GTHBD,V1,1234,N,T,0029$''] 5
     = (?s1, [LogMessageReceived ''c'' ?f1, LogDeviceIdentification ''c'' ''1234'' ''N'',
              DataClientConnection ''c'' ''1234''])"
    by (simp add: server_eval_defs eval_defs update_conv')
  have p2: "processMessages ?s1 ''c'' [''+RESP:GTFRI,V,5678,M,1,T,002A$''] 5
     = (?s2, [LogMessageReceived ''c'' ?f3, DataMessage ''c'' ?f3])"
    by (simp add: server_eval_defs eval_defs update_conv')
  from C7_decode_error_frame_local[OF a b c d, of 5] have
    "handleClientData demoServer ''c'' ?d 5 =
           (case processMessages demoServer ''c'' [''+ACK:GTHBD,V1,1234,N,T,0029$''] 5 of
              (st1, e1) \<Rightarrow>
                (case processMessages st1 ''c'' [''+RESP:GTFRI,V,5678,M,1,T,002A$''] 5 of
                   (st2, e2) \<Rightarrow>
                     (st2, e1 @ [LogProtocolError ''c'' (error (parseMessage ''junk$'')) ''junk$''] @ e2)))"
    by blast
  then have h: "handleClientData demoServer ''c'' ?d 5 =
     (?s2, [LogMessageReceived ''c'' ?f1, LogDeviceIdentification ''c'' ''1234'' ''N'',
            DataClientConnection ''c'' ''1234'',
            LogProtocolError ''c'' (Some UnknownFrameType) ''junk$'',
            LogMessageReceived ''c'' ?f3, DataMessage ''c'' ?f3])"
    by (simp only: p1 p2 e prod.case append.simps)
  have t: "snd (handleClientData demoServer ''c'' ?d 5)
     = [LogMessageReceived ''c'' ?f1, LogDeviceIdentification ''c'' ''1234'' ''N'',
            DataClientConnection ''c'' ''1234'',
            LogProtocolError ''c'' (Some UnknownFrameType) ''junk$'',
            LogMessageReceived ''c'' ?f3, DataMessage ''c'' ?f3]"
    by (simp only: h snd_conv)
  have m: "map_option messageCount
        (map_of (clients (fst (handleClientData demoServer ''c'' ?d 5))) ''c'') = Some 2"
    by (simp only: h fst_conv) simp
  have n: "length (pending (fst (handleClientData demoServer ''c'' ?d 5))) = 2"
    by (simp only: h fst_conv) simp
  have w1: "filter (\<lambda>e. case e of SocketWrite _ _ \<Rightarrow> True | _ \<Rightarrow> False)
        (snd (runTasks (fst (handleClientData demoServer ''c'' ?d 5)) [1, 0, 0] 6))
       = [SocketWrite ''c'' ''+SACK:002A$'', SocketWrite ''c'' ''+SACK:GTHBD,V1,0029$'']"
    by (simp only: h fst_conv)
       (simp add: resumeTask_def sendAckMessage_def handleSpecificCommand_def truthy_def
          orElse_def demoServer_def demoClient_def demoConfig_def Let_def)
  show ?thesis using a b c d t m n w1 by blast
qed

text \<open>
  Claim C8.  A connection arriving while the registry holds at least \<open>maxConnections\<close>
  sessions is refused: the server state is unchanged (no session is registered, no
  listener is attached), the socket is ended, and data arriving on that socket afterwards
  does nothing: no frame is decoded and nothing is sent.
\<close>

theorem C8_capacity_refusal:
  assumes "maxConnections (config st) \<le> int (length (clients st))"
    and "cid \<notin> set (initialListeners st)" and "cid \<notin> set (dataListeners st)"
  shows "handleConnection st cid = (st, [LogConnectionLimit cid, SocketEnd cid])
       \<and> socketData (fst (handleConnection st cid)) cid data now
           = (fst (handleConnection st cid), [])"
  using assms by (simp add: handleConnection_def socketData_def)


theorem C8_capacity_refusal_witness:
  "maxConnections (config demoServer) \<le> int (length (clients demoServer))
   \<and> ''d'' \<notin> set (initialListeners demoServer) \<and> ''d'' \<notin> set (dataListeners demoServer)
   \<and> handleConnection demoServer ''d'' = (demoServer, [LogConnectionLimit ''d'', SocketEnd ''d''])
   \<and> socketData demoServer ''d'' ''+ACK:GTHBD,V1,1234,N,T,0029$'' 5 = (demoServer, [])"
proof -
  have a: "maxConnections (config demoServer) \<le> int (length (clients demoServer))"
    by (simp add: demoServer_def demoConfig_def)
  have b: "''d'' \<notin> set (initialListeners demoServer)" by (simp add: demoServer_def)
  have c: "''d'' \<notin> set (dataListeners demoServer)" by (simp add: demoServer_def)
  from C8_capacity_refusal[OF a b c, of "''+ACK:GTHBD,V1,1234,N,T,0029$''" 5] a b c show ?thesis
    by (metis fst_conv)
qed


text \<open>
  Claim C6, as the code has it.  A received buffer that holds no terminator is not handed
  to the decoder: the session is unchanged, the only effect is the warning that the
  message is incomplete, and the bytes are not kept, so the next buffer is processed
  exactly as if this one had never arrived.
\<close>

theorem C6_incomplete_buffer_dropped:
  assumes "map_of (clients st) cid = Some c" and "\<not> isMessageComplete (trim data)"
  shows "handleClientData st cid data now = (st, [LogIncomplete cid (trim data)])
       \<and> handleClientData (fst (handleClientData st cid data now)) cid data2 later
           = handleClientData st cid data2 later"
  using assms by (simp add: handleClientData_def)



theorem C6_incomplete_buffer_dropped_witness:
  "map_of (clients demoServer) ''c'' = Some demoClient
   \<and> \<not> isMessageComplete (trim ''+ACK:GTHBD,V1,12'')
   \<and> handleClientData demoServer ''c'' ''+ACK:GTHBD,V1,12'' 5
       = (demoServer, [LogIncomplete ''c'' ''+ACK:GTHBD,V1,12''])"
proof -
  have a: "map_of (clients demoServer) ''c'' = Some demoClient" by (simp add: demoServer_def)
  have b: "\<not> isMessageComplete (trim ''+ACK:GTHBD,V1,12'')"
    by (simp add: isMessageComplete_def eval_defs)
  have t: "trim ''+ACK:GTHBD,V1,12'' = ''+ACK:GTHBD,V1,12''" by (simp add: eval_defs)
  from C6_incomplete_buffer_dropped[OF a b, of 5] a b t show ?thesis by simp
qed


text \<open>
  Claim C6 as stated fails.  A heartbeat split across two reads is lost: the first part is
  dropped and the second part is a decode failure, where the whole frame in one read is
  counted.  And a fragment after the last terminator is given a terminator and decoded as
  a frame of its own.
\<close>

theorem C6_split_frame_counterexample:
  "handleClientData demoServer ''c'' ''+ACK:GTHBD,V1,12'' 5
     = (demoServer, [LogIncomplete ''c'' ''+ACK:GTHBD,V1,12''])
   \<and> handleClientData (fst (handleClientData demoServer ''c'' ''+ACK:GTHBD,V1,12'' 5)) ''c''
        ''34,N,T,0029$'' 6
     = (demoServer, [LogProtocolError ''c'' (Some UnknownFrameType) ''34,N,T,0029$''])
   \<and> map_option messageCount
        (map_of (clients (fst (handleClientData demoServer ''c'' ''+ACK:GTHBD,V1,1234,N,T,0029$'' 5)))
           ''c'') = Some 1
   \<and> extractMessages ''+ACK:GTHBD,V1,1234,N,T,0029$+ACK:GTHBD,V1,1234,N,T,00''
     = [''+ACK:GTHBD,V1,1234,N,T,0029$'', ''+ACK:GTHBD,V1,1234,N,T,00$'']
   \<and> map_option messageCount
        (map_of (clients (fst (handleClientData demoServer ''c''
            ''+ACK:GTHBD,V1,1234,N,T,0029$+ACK:GTHBD,V1,1234,N,T,00'' 5))) ''c'') = Some 2"
  by (simp add: server_eval_defs eval_defs update_conv')


end
